theory Spec2Isabelle
  imports Main "HOL-Library.Word"
begin

unbundle bit_operations_syntax

section \<open>Failures\<close>

text \<open>
  Where the C++ does not return a value, the model returns a failure:
  \<^verbatim>\<open>handleException()\<close>, which does not return, and the undefined behaviour of an
  integer division by zero, of an index outside an array and of a signed overflow.
\<close>

datatype failure = HandleException | DivisionByZero | IndexOutOfRange | SignedOverflow

section \<open>Perf event groups (PerfEventGroup.cpp)\<close>

subsection \<open>Constants of the kernel interface\<close>

text \<open>
  Modelled from the spec: the constants of \<^verbatim>\<open>k/perf_event.h\<close> and of the C library that
  PerfEventGroup.cpp names.  The header is not among the sources; the values are those of
  the Linux user-space interface, where every \<^verbatim>\<open>PERF_SAMPLE_*\<close> and \<^verbatim>\<open>PERF_FORMAT_*\<close>
  constant is a single bit.
\<close>

definition PERF_SAMPLE_IP :: "64 word" where "PERF_SAMPLE_IP = 2 ^ 0"
definition PERF_SAMPLE_TID :: "64 word" where "PERF_SAMPLE_TID = 2 ^ 1"
definition PERF_SAMPLE_TIME :: "64 word" where "PERF_SAMPLE_TIME = 2 ^ 2"
definition PERF_SAMPLE_READ :: "64 word" where "PERF_SAMPLE_READ = 2 ^ 4"
definition PERF_SAMPLE_CALLCHAIN :: "64 word" where "PERF_SAMPLE_CALLCHAIN = 2 ^ 5"
definition PERF_SAMPLE_ID :: "64 word" where "PERF_SAMPLE_ID = 2 ^ 6"
definition PERF_SAMPLE_PERIOD :: "64 word" where "PERF_SAMPLE_PERIOD = 2 ^ 8"
definition PERF_SAMPLE_RAW :: "64 word" where "PERF_SAMPLE_RAW = 2 ^ 10"
definition PERF_SAMPLE_REGS_USER :: "64 word" where "PERF_SAMPLE_REGS_USER = 2 ^ 12"
definition PERF_SAMPLE_IDENTIFIER :: "64 word" where "PERF_SAMPLE_IDENTIFIER = 2 ^ 16"

definition PERF_FORMAT_ID :: "64 word" where "PERF_FORMAT_ID = 2 ^ 2"
definition PERF_FORMAT_GROUP :: "64 word" where "PERF_FORMAT_GROUP = 2 ^ 3"

definition PERF_TYPE_SOFTWARE :: "32 word" where "PERF_TYPE_SOFTWARE = 1"
definition PERF_TYPE_TRACEPOINT :: "32 word" where "PERF_TYPE_TRACEPOINT = 2"

definition PERF_COUNT_SW_CPU_CLOCK :: "64 word" where "PERF_COUNT_SW_CPU_CLOCK = 0"
definition PERF_COUNT_SW_TASK_CLOCK :: "64 word" where "PERF_COUNT_SW_TASK_CLOCK = 1"
definition PERF_COUNT_SW_CONTEXT_SWITCHES :: "64 word" where "PERF_COUNT_SW_CONTEXT_SWITCHES = 3"
definition PERF_COUNT_SW_DUMMY :: "64 word" where "PERF_COUNT_SW_DUMMY = 9"

definition CLOCK_MONOTONIC_RAW :: "32 word" where "CLOCK_MONOTONIC_RAW = 4"

definition INT_MAX :: nat where "INT_MAX = 2147483647"

text \<open>
  Modelled from the spec: \<^verbatim>\<open>UNKNOWN_TRACEPOINT_ID\<close>, the sentinel of a tracepoint id that
  could not be read (``tracepoint id or sentinel UNKNOWN'').  Its declaration is not among
  the sources; it is the 64-bit value -1.
\<close>

definition UNKNOWN_TRACEPOINT_ID :: "64 word" where "UNKNOWN_TRACEPOINT_ID = - 1"

definition NANO_SECONDS_IN_ONE_SECOND :: "64 word" where
  "NANO_SECONDS_IN_ONE_SECOND = 1000000000"

definition NANO_SECONDS_IN_100_MS :: "64 word" where
  "NANO_SECONDS_IN_100_MS = 100000000"

definition MAX_SPE_WATERMARK :: "32 word" where "MAX_SPE_WATERMARK = 2048 * 1024"

definition MIN_SPE_WATERMARK :: "32 word" where "MIN_SPE_WATERMARK = 4096"

subsection \<open>The auxiliary watermark\<close>

text \<open>
  \<^verbatim>\<open>calculate_aux_watermark(std::size_t mmap_size, std::uint64_t count)\<close>, with
  \<^verbatim>\<open>size_t\<close> of 64 bits.  The division \<^verbatim>\<open>NANO_SECONDS_IN_ONE_SECOND / count\<close> is not
  guarded in the source: for \<^verbatim>\<open>count == 0\<close> the C++ has no value, which is \<open>None\<close> here.
  The last line converts the 64-bit minimum to 32 bits (\<^verbatim>\<open>std::max<std::uint32_t>\<close>).
\<close>

definition calculate_aux_watermark :: "64 word \<Rightarrow> 64 word \<Rightarrow> 32 word option" where
  "calculate_aux_watermark mmap_size count =
     (if count = 0 then None
      else
        let fraction_of_second = (10 :: 64 word);
            frequency = max (NANO_SECONDS_IN_ONE_SECOND div count) 1;
            bps = 24 * frequency;
            pref_watermark = min (mmap_size div 2) (bps div fraction_of_second)
        in Some (max (ucast (min pref_watermark (ucast MAX_SPE_WATERMARK)) :: 32 word)
                     MIN_SPE_WATERMARK))"

definition should_exclude_kernel :: "32 word \<Rightarrow> 64 word \<Rightarrow> bool \<Rightarrow> bool" where
  "should_exclude_kernel type config exclude_requested =
     (if \<not> exclude_requested then False
      else if type = PERF_TYPE_SOFTWARE then config \<noteq> PERF_COUNT_SW_CONTEXT_SWITCHES
      else True)"

subsection \<open>Configuration, attributes and events\<close>

text \<open>
  \<^verbatim>\<open>PerfConfig\<close>, the capability flags read by the configurer, and the ring buffer sizes
  (\<^verbatim>\<open>size_t\<close>).
\<close>

record PerfConfig =
  is_system_wide :: bool
  has_sample_identifier :: bool
  has_attr_clockid_support :: bool
  has_attr_comm_exec :: bool
  has_attr_context_switch :: bool
  has_count_sw_dummy :: bool
  has_exclude_callchain_kernel :: bool
  can_access_tracepoints :: bool
  use_64bit_register_set :: bool
  exclude_kernel :: bool

record perf_ringbuffer_config_t =
  data_buffer_size :: "64 word"
  aux_buffer_size :: "64 word"

record perf_event_group_configurer_config_t =
  perfConfig :: PerfConfig
  ringbuffer_config :: perf_ringbuffer_config_t
  excludeKernelEvents :: bool
  backtraceDepth :: "32 word"
  sampleRate :: "32 word"
  enablePeriodicSampling :: bool
  schedSwitchId :: "64 word"
  schedSwitchKey :: "32 word"
  dummyKeyCounter :: "32 word"

text \<open>\<^verbatim>\<open>IPerfGroups::Attr\<close>, the caller's description of an event.\<close>

record Attr =
  type :: "32 word"
  config :: "64 word"
  config1 :: "64 word"
  config2 :: "64 word"
  periodOrFreq :: "64 word"
  sampleType :: "64 word"
  mmap :: bool
  comm :: bool
  freq :: bool
  task :: bool
  context_switch :: bool

definition Attr_default :: Attr where
  "Attr_default = \<lparr> type = 0, config = 0, config1 = 0, config2 = 0, periodOrFreq = 0,
     sampleType = 0, mmap = False, comm = False, freq = False, task = False,
     context_switch = False \<rparr>"

text \<open>
  The fields of the kernel's \<^verbatim>\<open>perf_event_attr\<close> that \<^verbatim>\<open>initEvent\<close> writes.  The one-bit
  fields of the C structure are words of one bit.  The field \<^verbatim>\<open>size\<close> is \<open>attr_size\<close>
  here.
\<close>

record perf_event_attr =
  type :: "32 word"
  attr_size :: "32 word"
  config :: "64 word"
  sample_period :: "64 word"
  sample_type :: "64 word"
  read_format :: "64 word"
  disabled :: "1 word"
  inherit :: "1 word"
  pinned :: "1 word"
  exclude_kernel :: "1 word"
  exclude_hv :: "1 word"
  exclude_idle :: "1 word"
  mmap :: "1 word"
  comm :: "1 word"
  freq :: "1 word"
  inherit_stat :: "1 word"
  task :: "1 word"
  watermark :: "1 word"
  sample_id_all :: "1 word"
  exclude_callchain_kernel :: "1 word"
  comm_exec :: "1 word"
  use_clockid :: "1 word"
  context_switch :: "1 word"
  wakeup_watermark :: "32 word"
  config1 :: "64 word"
  config2 :: "64 word"
  sample_regs_user :: "64 word"
  clockid :: "32 word"
  aux_watermark :: "32 word"

record perf_event_t =
  attr :: perf_event_attr
  key :: "32 word"

text \<open>The value-initialised element that \<^verbatim>\<open>state.events.emplace_back()\<close> appends.\<close>

definition perf_event_attr_zero :: perf_event_attr where
  "perf_event_attr_zero = \<lparr> type = 0, attr_size = 0, config = 0, sample_period = 0,
     sample_type = 0, read_format = 0, disabled = 0, inherit = 0, pinned = 0,
     exclude_kernel = 0, exclude_hv = 0, exclude_idle = 0, mmap = 0, comm = 0, freq = 0,
     inherit_stat = 0, task = 0, watermark = 0, sample_id_all = 0,
     exclude_callchain_kernel = 0, comm_exec = 0, use_clockid = 0, context_switch = 0,
     wakeup_watermark = 0, config1 = 0, config2 = 0, sample_regs_user = 0, clockid = 0,
     aux_watermark = 0 \<rparr>"

definition perf_event_zero :: perf_event_t where
  "perf_event_zero = \<lparr> attr = perf_event_attr_zero, key = 0 \<rparr>"

datatype Type = PER_CLUSTER_CPU | UNCORE_PMU | SPECIFIC_CPU | GLOBAL | SPE

text \<open>
  What the build fixes and the sources do not show: the macro
  \<^verbatim>\<open>CONFIG_PERF_SUPPORT_REGISTER_UNWINDING\<close>, \<^verbatim>\<open>sizeof(perf_event_attr)\<close>, and the member
  function \<^verbatim>\<open>requiresLeader()\<close> of the header, a function of the group's type.  They are
  parameters of the model.
\<close>

record build =
  CONFIG_PERF_SUPPORT_REGISTER_UNWINDING :: bool
  sizeof_perf_event_attr :: "32 word"
  requiresLeader :: "Type \<Rightarrow> bool"

text \<open>
  The mapping tracker is a callback that receives \<open>(key, attr)\<close>; the model keeps the list
  of the pairs it was called with, oldest first.
\<close>

type_synonym attr_to_key_mapping_tracker_t = "(32 word \<times> perf_event_attr) list"

subsection \<open>initEvent\<close>

text \<open>
  \<^verbatim>\<open>initEvent\<close> writes the fields of the event it is given (\<open>initEvent_attr\<close>, the
  assignments of the source up to \<^verbatim>\<open>event.key = key\<close>, with the watermark \<open>aux\<close> that
  \<^verbatim>\<open>calculate_aux_watermark\<close> returned), and returns \<^verbatim>\<open>false\<close> for an SPE group on a kernel without
  \<^verbatim>\<open>has_attr_context_switch\<close>, after the fields are written and before the mapping tracker
  is called.  The result is the returned boolean, the event as the call leaves it, and
  the tracker.  Under \<^verbatim>\<open>CONFIG_PERF_SUPPORT_REGISTER_UNWINDING\<close> the field
  \<^verbatim>\<open>sample_regs_user\<close> is written only when the call chain is sampled.
\<close>

definition initEvent_attr ::
  "build \<Rightarrow> perf_event_group_configurer_config_t \<Rightarrow> perf_event_attr \<Rightarrow> bool \<Rightarrow> bool \<Rightarrow> bool
    \<Rightarrow> Attr \<Rightarrow> 32 word \<Rightarrow> perf_event_attr" where
  "initEvent_attr b cfg event_attr is_header requires_leader leader a aux =
     (let pc = perfConfig cfg;
          sampleReadMask = (if is_system_wide pc then 0 else PERF_SAMPLE_READ);
          sample_type0 =
            PERF_SAMPLE_TIME
            OR (sampleType a AND NOT sampleReadMask)
            OR (if has_sample_identifier pc then PERF_SAMPLE_IDENTIFIER
                else PERF_SAMPLE_TID OR PERF_SAMPLE_IP OR PERF_SAMPLE_ID)
            OR (if Attr.type a = PERF_TYPE_TRACEPOINT then PERF_SAMPLE_PERIOD else 0)
            OR (if is_system_wide pc \<and> \<not> Attr.context_switch a then 0 else PERF_SAMPLE_TID)
            OR (if Attr.freq a then PERF_SAMPLE_PERIOD else 0);
          callchain = (sample_type0 AND PERF_SAMPLE_CALLCHAIN \<noteq> 0);
          sample_type1 =
            (if CONFIG_PERF_SUPPORT_REGISTER_UNWINDING b \<and> callchain
             then sample_type0 OR PERF_SAMPLE_REGS_USER else sample_type0);
          sample_regs_user1 =
            (if CONFIG_PERF_SUPPORT_REGISTER_UNWINDING b
             then (if callchain
                   then (if use_64bit_register_set pc then 0x1ffffffff else 0xffff)
                   else sample_regs_user event_attr)
             else 0);
          use_inherit = (\<not> (is_system_wide pc \<or> is_header));
          every_attribute_in_own_group = (use_inherit \<or> \<not> requires_leader \<or> is_header);
          use_read_format_group =
            (leader \<and> \<not> use_inherit \<and> \<not> every_attribute_in_own_group \<and> \<not> is_header);
          exclude_kernel1 =
            should_exclude_kernel (Attr.type a) (Attr.config a) (excludeKernelEvents cfg);
          pinned1 = (if leader \<or> every_attribute_in_own_group \<or> is_header then 1 else 0)
      in event_attr
           \<lparr> attr_size := sizeof_perf_event_attr b,
             sample_type := sample_type1,
             sample_regs_user := sample_regs_user1,
             inherit := of_bool use_inherit,
             inherit_stat := of_bool use_inherit,
             read_format := (if use_read_format_group
                             then PERF_FORMAT_ID OR PERF_FORMAT_GROUP
                             else PERF_FORMAT_ID),
             pinned := pinned1,
             disabled := pinned1,
             watermark := 1,
             wakeup_watermark := ucast (data_buffer_size (ringbuffer_config cfg) div 2),
             use_clockid := (if has_attr_clockid_support pc then 1 else 0),
             clockid := (if has_attr_clockid_support pc then CLOCK_MONOTONIC_RAW else 0),
             type := Attr.type a,
             config := Attr.config a,
             config1 := Attr.config1 a,
             config2 := Attr.config2 a,
             sample_period := periodOrFreq a,
             mmap := of_bool (Attr.mmap a),
             comm := of_bool (Attr.comm a),
             comm_exec := of_bool (Attr.comm a \<and> has_attr_comm_exec pc),
             freq := of_bool (Attr.freq a),
             task := of_bool (Attr.task a),
             sample_id_all := 1,
             context_switch := of_bool (Attr.context_switch a),
             exclude_kernel := (if exclude_kernel1 then 1 else 0),
             exclude_hv := (if exclude_kernel1 then 1 else 0),
             exclude_idle := (if exclude_kernel1 then 1 else 0),
             exclude_callchain_kernel :=
               (if excludeKernelEvents cfg \<and> has_exclude_callchain_kernel pc then 1 else 0),
             aux_watermark := aux \<rparr>)"

definition initEvent ::
  "build \<Rightarrow> perf_event_group_configurer_config_t \<Rightarrow> perf_event_t \<Rightarrow> bool \<Rightarrow> bool \<Rightarrow> Type
    \<Rightarrow> bool \<Rightarrow> attr_to_key_mapping_tracker_t \<Rightarrow> 32 word \<Rightarrow> Attr \<Rightarrow> bool
    \<Rightarrow> failure + (bool \<times> perf_event_t \<times> attr_to_key_mapping_tracker_t)" where
  "initEvent b cfg event is_header requires_leader gtype leader mapping_tracker k a hasAuxData =
     (case (if hasAuxData
            then calculate_aux_watermark (aux_buffer_size (ringbuffer_config cfg))
                   (periodOrFreq a)
            else Some 0) of
        None \<Rightarrow> Inl DivisionByZero
      | Some aux \<Rightarrow>
          let attr1 = initEvent_attr b cfg (attr event) is_header requires_leader leader a aux;
              event1 = event \<lparr> attr := attr1, key := k \<rparr>
          in if gtype = SPE \<and> \<not> has_attr_context_switch (perfConfig cfg)
             then Inr (False, event1, mapping_tracker)
             else
               let event2 = (if gtype = SPE
                             then event1 \<lparr> attr := attr1 \<lparr> context_switch := 1 \<rparr> \<rparr>
                             else event1)
               in Inr (True, event2, mapping_tracker @ [(k, attr event2)]))"

subsection \<open>The group configurer\<close>

text \<open>
  \<^verbatim>\<open>perf_event_group_configurer_t\<close>: the configuration it refers to (whose
  \<^verbatim>\<open>dummyKeyCounter\<close> it decrements), the type of the group's identifier
  (\<^verbatim>\<open>identifier.getType()\<close>), and \<^verbatim>\<open>state.events\<close>.
\<close>

record perf_event_group_configurer_t =
  config :: perf_event_group_configurer_config_t
  identifierType :: Type
  events :: "perf_event_t list"

text \<open>
  \<^verbatim>\<open>addEvent\<close>.  The \<^verbatim>\<open>assert(false)\<close> of the first branch is that of a build with
  \<^verbatim>\<open>NDEBUG\<close>, where the branch returns \<^verbatim>\<open>false\<close>.  The new element is appended before
  \<^verbatim>\<open>initEvent\<close> runs on it (\<^verbatim>\<open>emplace_back\<close>, then \<^verbatim>\<open>back()\<close>), and nothing removes it
  when \<^verbatim>\<open>initEvent\<close> returns \<^verbatim>\<open>false\<close>.
\<close>

definition addEvent ::
  "build \<Rightarrow> perf_event_group_configurer_t \<Rightarrow> bool \<Rightarrow> attr_to_key_mapping_tracker_t \<Rightarrow> 32 word
    \<Rightarrow> Attr \<Rightarrow> bool
    \<Rightarrow> failure + (bool \<times> perf_event_group_configurer_t \<times> attr_to_key_mapping_tracker_t)" where
  "addEvent b c leader mapping_tracker k a hasAuxData =
     (if leader \<and> events c \<noteq> [] then Inr (False, c, mapping_tracker)
      else if length (events c) \<ge> INT_MAX then Inr (False, c, mapping_tracker)
      else
        case initEvent b (perf_event_group_configurer_t.config c) perf_event_zero False
               (requiresLeader b (identifierType c)) (identifierType c) leader mapping_tracker k a
               hasAuxData of
          Inl f \<Rightarrow> Inl f
        | Inr (ok, event, tracker') \<Rightarrow>
            Inr (ok, c \<lparr> events := events c @ [event] \<rparr>, tracker'))"

text \<open>\<^verbatim>\<open>nextDummyKey\<close>: \<^verbatim>\<open>return config.dummyKeyCounter--;\<close>\<close>

definition nextDummyKey ::
  "perf_event_group_configurer_t \<Rightarrow> 32 word \<times> perf_event_group_configurer_t" where
  "nextDummyKey c =
     (let cfg = perf_event_group_configurer_t.config c
      in (dummyKeyCounter cfg,
          c \<lparr> perf_event_group_configurer_t.config :=
                cfg \<lparr> dummyKeyCounter := dummyKeyCounter cfg - 1 \<rparr> \<rparr>))"

text \<open>
  The first part of \<^verbatim>\<open>createCpuGroupLeader\<close>: the attribute of the leader and
  \<^verbatim>\<open>enableTaskClock\<close>, or \<open>None\<close> where the source returns \<^verbatim>\<open>false\<close> because the
  id of sched_switch is unknown.  \<^verbatim>\<open>backtraceDepth\<close> and \<^verbatim>\<open>sampleRate\<close> are signed; the
  division converts \<^verbatim>\<open>sampleRate\<close> to \<^verbatim>\<open>unsigned long\<close> and is guarded by
  \<^verbatim>\<open>sampleRate > 0\<close>.
\<close>

definition cpuClockSampleType :: "bool \<Rightarrow> 64 word" where
  "cpuClockSampleType enableCallChain =
     PERF_SAMPLE_TID OR PERF_SAMPLE_IP OR PERF_SAMPLE_READ
     OR (if enableCallChain then PERF_SAMPLE_CALLCHAIN else 0)"

definition samplePeriod :: "perf_event_group_configurer_config_t \<Rightarrow> 64 word" where
  "samplePeriod cfg =
     (if 0 <s sampleRate cfg \<and> enablePeriodicSampling cfg
      then NANO_SECONDS_IN_ONE_SECOND div scast (sampleRate cfg) else 0)"

definition cpuGroupLeaderAttr ::
  "perf_event_group_configurer_config_t \<Rightarrow> (Attr \<times> bool) option" where
  "cpuGroupLeaderAttr cfg =
     (let enableCallChain = (0 <s backtraceDepth cfg);
          pc = perfConfig cfg;
          attr0 = Attr_default \<lparr> sampleType := PERF_SAMPLE_TID OR PERF_SAMPLE_READ,
                    Attr.mmap := True, Attr.comm := True, Attr.task := True \<rparr>
      in if can_access_tracepoints pc \<and> is_system_wide pc then
           (if schedSwitchId cfg = UNKNOWN_TRACEPOINT_ID then None
            else Some (attr0 \<lparr> Attr.type := PERF_TYPE_TRACEPOINT,
                         Attr.config := schedSwitchId cfg,
                         periodOrFreq := 1,
                         sampleType := sampleType attr0 OR PERF_SAMPLE_RAW \<rparr>, False))
         else
           (let attr1 = attr0 \<lparr> Attr.type := PERF_TYPE_SOFTWARE \<rparr>
            in if has_attr_context_switch pc then
                 (let attr2 = attr1 \<lparr> Attr.context_switch := True \<rparr>
                  in if has_count_sw_dummy pc
                     then Some (attr2 \<lparr> Attr.config := PERF_COUNT_SW_DUMMY,
                                  periodOrFreq := 0 \<rparr>, False)
                     else Some (attr2 \<lparr> Attr.config := PERF_COUNT_SW_CPU_CLOCK,
                                  periodOrFreq := samplePeriod cfg,
                                  sampleType := sampleType attr2
                                    OR cpuClockSampleType enableCallChain \<rparr>, False))
               else if \<not> PerfConfig.exclude_kernel pc then
                 Some (attr1 \<lparr> Attr.config := PERF_COUNT_SW_CONTEXT_SWITCHES,
                         periodOrFreq := 1,
                         sampleType := sampleType attr1 OR PERF_SAMPLE_TID \<rparr>, True)
               else
                 Some (attr1 \<lparr> Attr.config := PERF_COUNT_SW_CPU_CLOCK,
                         periodOrFreq := samplePeriod cfg,
                         sampleType := sampleType attr1
                           OR cpuClockSampleType enableCallChain \<rparr>, False)))"

text \<open>
  \<^verbatim>\<open>createCpuGroupLeader\<close>: the leader, then the periodic sampling of the program
  counter, then the task clock; it returns \<^verbatim>\<open>false\<close> at the first \<^verbatim>\<open>addEvent\<close> that
  does.
\<close>

definition createCpuGroupLeader ::
  "build \<Rightarrow> perf_event_group_configurer_t \<Rightarrow> attr_to_key_mapping_tracker_t
    \<Rightarrow> failure + (bool \<times> perf_event_group_configurer_t \<times> attr_to_key_mapping_tracker_t)" where
  "createCpuGroupLeader b c mapping_tracker =
     (let cfg = perf_event_group_configurer_t.config c;
          enableCallChain = (0 <s backtraceDepth cfg)
      in case cpuGroupLeaderAttr cfg of
           None \<Rightarrow> Inr (False, c, mapping_tracker)
         | Some (a, enableTaskClock) \<Rightarrow>
            (case addEvent b c True mapping_tracker (schedSwitchKey cfg) a False of
               Inl f \<Rightarrow> Inl f
             | Inr (ok1, c1, t1) \<Rightarrow>
                if \<not> ok1 then Inr (False, c1, t1)
                else
                  (case (if Attr.config a \<noteq> PERF_COUNT_SW_CPU_CLOCK \<and> 0 <s sampleRate cfg
                            \<and> enablePeriodicSampling cfg
                         then
                           (let pcAttr = Attr_default
                                  \<lparr> Attr.type := PERF_TYPE_SOFTWARE,
                                    Attr.config := PERF_COUNT_SW_CPU_CLOCK,
                                    sampleType := cpuClockSampleType enableCallChain,
                                    periodOrFreq := NANO_SECONDS_IN_ONE_SECOND
                                                     div scast (sampleRate cfg) \<rparr>;
                                (k, c1') = nextDummyKey c1
                            in addEvent b c1' False t1 k pcAttr False)
                         else Inr (True, c1, t1)) of
                     Inl f \<Rightarrow> Inl f
                   | Inr (ok2, c2, t2) \<Rightarrow>
                      if \<not> ok2 then Inr (False, c2, t2)
                      else if enableTaskClock then
                        (let taskClockAttr = Attr_default
                               \<lparr> Attr.type := PERF_TYPE_SOFTWARE,
                                 Attr.config := PERF_COUNT_SW_TASK_CLOCK,
                                 periodOrFreq := 100000,
                                 sampleType := PERF_SAMPLE_TID \<rparr>;
                             (k, c2') = nextDummyKey c2
                         in addEvent b c2' False t2 k taskClockAttr False)
                      else Inr (True, c2, t2))))"

definition createUncoreGroupLeader ::
  "build \<Rightarrow> perf_event_group_configurer_t \<Rightarrow> attr_to_key_mapping_tracker_t
    \<Rightarrow> failure + (bool \<times> perf_event_group_configurer_t \<times> attr_to_key_mapping_tracker_t)" where
  "createUncoreGroupLeader b c mapping_tracker =
     (let cfg = perf_event_group_configurer_t.config c;
          a = Attr_default
                \<lparr> Attr.type := PERF_TYPE_SOFTWARE,
                  Attr.config := PERF_COUNT_SW_CPU_CLOCK,
                  sampleType := PERF_SAMPLE_READ,
                  periodOrFreq := (if 0 <s sampleRate cfg
                                   then NANO_SECONDS_IN_ONE_SECOND div scast (sampleRate cfg)
                                   else NANO_SECONDS_IN_100_MS) \<rparr>;
          (k, c') = nextDummyKey c
      in addEvent b c' True mapping_tracker k a False)"

definition createGroupLeader ::
  "build \<Rightarrow> perf_event_group_configurer_t \<Rightarrow> attr_to_key_mapping_tracker_t
    \<Rightarrow> failure + (bool \<times> perf_event_group_configurer_t \<times> attr_to_key_mapping_tracker_t)" where
  "createGroupLeader b c mapping_tracker =
     (case identifierType c of
        PER_CLUSTER_CPU \<Rightarrow> createCpuGroupLeader b c mapping_tracker
      | UNCORE_PMU \<Rightarrow> createUncoreGroupLeader b c mapping_tracker
      | _ \<Rightarrow> Inr (False, c, mapping_tracker))"

text \<open>
  A sequence of \<^verbatim>\<open>addEvent\<close> calls, each given as \<open>(leader, key, attr, hasAuxData)\<close>, all
  of which return \<^verbatim>\<open>true\<close>: the configurer and the tracker after the last call, or
  \<open>None\<close> when a call fails or returns \<^verbatim>\<open>false\<close>.
\<close>

fun addEvents ::
  "build \<Rightarrow> perf_event_group_configurer_t \<Rightarrow> attr_to_key_mapping_tracker_t
    \<Rightarrow> (bool \<times> 32 word \<times> Attr \<times> bool) list
    \<Rightarrow> (perf_event_group_configurer_t \<times> attr_to_key_mapping_tracker_t) option" where
  "addEvents b c t [] = Some (c, t)"
| "addEvents b c t ((leader, k, a, hasAuxData) # calls) =
     (case addEvent b c leader t k a hasAuxData of
        Inr (True, c', t') \<Rightarrow> addEvents b c' t' calls
      | _ \<Rightarrow> None)"

section \<open>CPU identification (CpuUtils.cpp)\<close>

subsection \<open>Strings of C\<close>

text \<open>
  A C string is the list of its characters before the terminating NUL.
  \<^verbatim>\<open>strncmp(s, lit, sizeof(lit) - 1) == 0\<close> holds when the literal is a prefix of \<open>s\<close>;
  \<^verbatim>\<open>strchr\<close> gives the offset of the first occurrence, or \<open>None\<close> for the null pointer.
\<close>

definition c_str :: "string \<Rightarrow> string" where
  "c_str buf = takeWhile (\<lambda>c. c \<noteq> CHR 0x00) buf"

definition strncmp_eq :: "string \<Rightarrow> string \<Rightarrow> bool" where
  "strncmp_eq s lit = (take (length lit) s = lit)"

definition strchr :: "string \<Rightarrow> char \<Rightarrow> nat option" where
  "strchr s c = (if c \<in> set s then Some (length (takeWhile (\<lambda>x. x \<noteq> c) s)) else None)"

text \<open>
  The results of the successive calls \<^verbatim>\<open>fgets(temp, 256, f)\<close> on a file: each takes at
  most 255 characters and stops after a line feed.  \<open>fgets_from n acc cs\<close> has read
  \<open>acc\<close> into the buffer, which has room for \<open>n\<close> more characters.
\<close>

fun fgets_from :: "nat \<Rightarrow> string \<Rightarrow> string \<Rightarrow> string list" where
  "fgets_from n acc [] = (if acc = [] then [] else [acc])"
| "fgets_from n acc (c # cs) =
     (if c = CHR 0x0A \<or> n \<le> 1 then (acc @ [c]) # fgets_from 255 [] cs
      else fgets_from (n - 1) (acc @ [c]) cs)"

definition fgets_lines :: "string \<Rightarrow> string list" where
  "fgets_lines content = fgets_from 255 [] content"

subsection \<open>getMaxCoreNum\<close>

text \<open>
  \<^verbatim>\<open>stringToLong\<close> and \<^verbatim>\<open>stringToInt\<close> are declared in OlyUtility.h, which is not among the
  sources.  They are parameters of the model: a function from the string and the base to
  the converted value, a \<^verbatim>\<open>long\<close> of 64 bits or an \<^verbatim>\<open>int\<close> of 32 bits, or \<open>None\<close> when
  the conversion fails.
\<close>

type_synonym stringToLong_t = "string \<Rightarrow> nat \<Rightarrow> 64 word option"
type_synonym stringToInt_t = "string \<Rightarrow> nat \<Rightarrow> 32 word option"

definition LONG_MAX :: int where "LONG_MAX = 9223372036854775807"

text \<open>
  The loop over the directory entries, in the order \<^verbatim>\<open>readdir\<close> returns them.
  \<^verbatim>\<open>maxCoreNum\<close> and \<^verbatim>\<open>coreNum\<close> are of type \<^verbatim>\<open>long\<close>, here integers within its range;
  \<^verbatim>\<open>coreNum + 1\<close> overflows for \<^verbatim>\<open>LONG_MAX\<close>.
\<close>

fun scanCpuEntries :: "stringToLong_t \<Rightarrow> int \<Rightarrow> string list \<Rightarrow> failure + int" where
  "scanCpuEntries stringToLong maxCoreNum [] = Inr maxCoreNum"
| "scanCpuEntries stringToLong maxCoreNum (d_name # entries) =
     (if strncmp_eq d_name ''cpu'' then
        (case stringToLong (drop 3 d_name) 10 of
           Some v \<Rightarrow>
             (let coreNum = sint v
              in if coreNum \<ge> maxCoreNum
                 then (if coreNum = LONG_MAX then Inl SignedOverflow
                       else scanCpuEntries stringToLong (coreNum + 1) entries)
                 else scanCpuEntries stringToLong maxCoreNum entries)
         | None \<Rightarrow> scanCpuEntries stringToLong maxCoreNum entries)
      else scanCpuEntries stringToLong maxCoreNum entries)"

text \<open>
  \<^verbatim>\<open>getMaxCoreNum\<close> on the entries of \<^verbatim>\<open>/sys/devices/system/cpu\<close>, or \<open>None\<close> when
  \<^verbatim>\<open>opendir\<close> fails.  The result is the \<^verbatim>\<open>long\<close> converted to the return type
  \<^verbatim>\<open>unsigned int\<close>.
\<close>

definition getMaxCoreNum :: "stringToLong_t \<Rightarrow> string list option \<Rightarrow> failure + 32 word" where
  "getMaxCoreNum stringToLong dir =
     (case dir of
        None \<Rightarrow> Inl HandleException
      | Some entries \<Rightarrow>
          (case scanCpuEntries stringToLong (- 1) entries of
             Inl f \<Rightarrow> Inl f
           | Inr maxCoreNum \<Rightarrow>
               if maxCoreNum < 1 then Inl HandleException else Inr (word_of_int maxCoreNum)))"

subsection \<open>parseProcCpuInfo\<close>

definition setImplementer :: "32 word \<Rightarrow> 32 word \<Rightarrow> 32 word" where
  "setImplementer cpuId implementer =
     (if cpuId = - 1 then 0 else cpuId) OR push_bit 12 implementer"

definition setPart :: "32 word \<Rightarrow> 32 word \<Rightarrow> 32 word" where
  "setPart cpuId part = (if cpuId = - 1 then 0 else cpuId) OR part"

definition HARDWARE :: string where "HARDWARE = ''Hardware''"
definition CPU_IMPLEMENTER :: string where "CPU_IMPLEMENTER = ''CPU implementer''"
definition CPU_PART :: string where "CPU_PART = ''CPU part''"
definition PROCESSOR :: string where "PROCESSOR = ''processor''"

definition makeCpuId :: "64 word \<Rightarrow> 32 word" where
  "makeCpuId midr =
     ucast (drop_bit 12 (midr AND 0xff000000) OR drop_bit 4 (midr AND 0xfff0))"

text \<open>
  The variables of \<^verbatim>\<open>parseProcCpuInfo\<close>.  The three of type \<^verbatim>\<open>size_t\<close> are natural
  numbers below \<open>2 ^ 64\<close>; \<^verbatim>\<open>UNKNOWN_PROCESSOR\<close> is \<^verbatim>\<open>(size_t) -1\<close>, and an \<^verbatim>\<open>int\<close>
  becomes a \<^verbatim>\<open>size_t\<close> by sign extension.  \<open>cpuIds\<close> is the span that the function
  writes to.
\<close>

record parse_state =
  hardwareName :: string
  cpuIds :: "32 word list"
  foundCoreName :: bool
  processor :: nat
  minProcessor :: nat
  maxProcessor :: nat
  foundProcessorInSection :: bool
  outOfPlaceCpuId :: "32 word"
  invalidFormat :: bool

definition UNKNOWN_PROCESSOR :: nat where "UNKNOWN_PROCESSOR = 2 ^ 64 - 1"

definition size_t_of_int :: "32 word \<Rightarrow> nat" where
  "size_t_of_int i = unat (scast i :: 64 word)"

definition parse_init :: "32 word list \<Rightarrow> parse_state" where
  "parse_init ids =
     \<lparr> hardwareName = [], cpuIds = ids, foundCoreName = False,
       processor = UNKNOWN_PROCESSOR, minProcessor = length ids, maxProcessor = 0,
       foundProcessorInSection = False, outOfPlaceCpuId = - 1, invalidFormat = False \<rparr>"

text \<open>
  One pass of the loop body either goes on with the next line, or returns from the function
  with the hardware name (the span as it is then), or does not return.
\<close>

datatype parse_flow = Continue parse_state | Return string "32 word list" | Raise failure

definition and_then :: "parse_flow \<Rightarrow> (parse_state \<Rightarrow> parse_flow) \<Rightarrow> parse_flow" where
  "and_then r f = (case r of Continue s \<Rightarrow> f s | _ \<Rightarrow> r)"

text \<open>The four blocks of the loop body; \<open>position\<close> is the text after the colon.\<close>

definition on_hardware :: "bool \<Rightarrow> parse_state \<Rightarrow> string \<Rightarrow> parse_flow" where
  "on_hardware justGetHardwareName s position =
     (if justGetHardwareName then Return position (cpuIds s)
      else Continue (s \<lparr> hardwareName := position, foundCoreName := True \<rparr>))"

definition on_implementer :: "stringToInt_t \<Rightarrow> parse_state \<Rightarrow> string \<Rightarrow> parse_flow" where
  "on_implementer stringToInt s position =
     (case stringToInt position 0 of
        None \<Rightarrow> Continue s
      | Some implementer \<Rightarrow>
          if processor s \<noteq> UNKNOWN_PROCESSOR then
            (if processor s < length (cpuIds s)
             then Continue (s \<lparr> cpuIds := (cpuIds s)
                      [processor s := setImplementer (cpuIds s ! processor s) implementer] \<rparr>)
             else Raise IndexOutOfRange)
          else Continue (s \<lparr> outOfPlaceCpuId := setImplementer (outOfPlaceCpuId s) implementer,
                             invalidFormat := True \<rparr>))"

definition on_part :: "stringToInt_t \<Rightarrow> parse_state \<Rightarrow> string \<Rightarrow> parse_flow" where
  "on_part stringToInt s position =
     (case stringToInt position 0 of
        None \<Rightarrow> Continue s
      | Some cpuId \<Rightarrow>
          if processor s \<noteq> UNKNOWN_PROCESSOR then
            (if processor s < length (cpuIds s)
             then Continue (s \<lparr> cpuIds := (cpuIds s)
                      [processor s := setPart (cpuIds s ! processor s) cpuId] \<rparr>)
             else Raise IndexOutOfRange)
          else Continue (s \<lparr> outOfPlaceCpuId := setPart (outOfPlaceCpuId s) cpuId,
                             invalidFormat := True \<rparr>))"

definition on_processor :: "stringToInt_t \<Rightarrow> parse_state \<Rightarrow> string \<Rightarrow> parse_flow" where
  "on_processor stringToInt s position =
     (let converted = stringToInt position 0;
          s1 = (case converted of
                  None \<Rightarrow> s
                | Some processorId \<Rightarrow>
                    s \<lparr> minProcessor := (if size_t_of_int processorId < minProcessor s
                                          then size_t_of_int processorId else minProcessor s),
                        maxProcessor := (if size_t_of_int processorId > maxProcessor s
                                          then size_t_of_int processorId else maxProcessor s) \<rparr>)
      in if foundProcessorInSection s
         then Continue (s1 \<lparr> processor := UNKNOWN_PROCESSOR, invalidFormat := True \<rparr>)
         else
           (case converted of
              None \<Rightarrow> Continue s1
            | Some processorId \<Rightarrow>
                if size_t_of_int processorId \<ge> length (cpuIds s) then Raise HandleException
                else Continue (s1 \<lparr> processor := size_t_of_int processorId,
                                     foundProcessorInSection := True \<rparr>)))"

text \<open>
  The loop body on one result of \<^verbatim>\<open>fgets\<close>.  The last character of the line is replaced
  by NUL before the line is examined, and the test for an empty line uses the length
  before that.
\<close>

definition parse_line :: "stringToInt_t \<Rightarrow> bool \<Rightarrow> parse_state \<Rightarrow> string \<Rightarrow> parse_flow" where
  "parse_line stringToInt justGetHardwareName s buf =
     (let len = length (c_str buf);
          temp = (if len > 0 then take (len - 1) (c_str buf) else c_str buf)
      in if len = 1
         then Continue (s \<lparr> processor := UNKNOWN_PROCESSOR, foundProcessorInSection := False \<rparr>)
         else
           (let foundHardware = (\<not> foundCoreName s \<and> strncmp_eq temp HARDWARE);
                foundCPUImplementer = strncmp_eq temp CPU_IMPLEMENTER;
                foundCPUPart = strncmp_eq temp CPU_PART;
                foundProcessor = strncmp_eq temp PROCESSOR
            in if foundHardware \<or> foundCPUImplementer \<or> foundCPUPart \<or> foundProcessor then
                 (case strchr temp CHR '':'' of
                    None \<Rightarrow> Return (hardwareName s) (cpuIds s)
                  | Some offset \<Rightarrow>
                      if offset + 2 \<ge> length temp then Return (hardwareName s) (cpuIds s)
                      else
                        (let position = drop (offset + 2) temp
                         in and_then
                              (and_then
                                (and_then
                                  (if foundHardware
                                   then on_hardware justGetHardwareName s position
                                   else Continue s)
                                  (\<lambda>s. if foundCPUImplementer
                                       then on_implementer stringToInt s position
                                       else Continue s))
                                (\<lambda>s. if foundCPUPart then on_part stringToInt s position
                                     else Continue s))
                              (\<lambda>s. if foundProcessor then on_processor stringToInt s position
                                   else Continue s)))
               else Continue s))"

fun parse_lines :: "stringToInt_t \<Rightarrow> bool \<Rightarrow> parse_state \<Rightarrow> string list \<Rightarrow> parse_flow" where
  "parse_lines stringToInt justGetHardwareName s [] = Continue s"
| "parse_lines stringToInt justGetHardwareName s (buf # bufs) =
     and_then (parse_line stringToInt justGetHardwareName s buf)
       (\<lambda>s'. parse_lines stringToInt justGetHardwareName s' bufs)"

text \<open>
  After the loop: the values found outside a processor's section go to every entry from
  \<^verbatim>\<open>minProcessor\<close> to \<^verbatim>\<open>maxProcessor\<close> that is still -1.
\<close>

definition fill_out_of_place :: "parse_state \<Rightarrow> 32 word list" where
  "fill_out_of_place s =
     (if invalidFormat s \<and> outOfPlaceCpuId s \<noteq> - 1 \<and> minProcessor s \<le> maxProcessor s then
        (let minP = minProcessor s;
             maxP = (if maxProcessor s < length (cpuIds s) then maxProcessor s + 1
                     else length (cpuIds s))
         in fold (\<lambda>p ids. if ids ! p = - 1 then ids[p := outOfPlaceCpuId s] else ids)
              [minP..<maxP] (cpuIds s))
      else cpuIds s)"

text \<open>
  What the function does after the loop, or where the loop body returns or does not
  return: the hardware name and the span, or a failure.
\<close>

definition parse_finish :: "parse_flow \<Rightarrow> failure + (string \<times> 32 word list)" where
  "parse_finish r =
     (case r of
        Raise f \<Rightarrow> Inl f
      | Return name ids \<Rightarrow> Inr (name, ids)
      | Continue s \<Rightarrow> Inr (hardwareName s, fill_out_of_place s))"

text \<open>
  \<^verbatim>\<open>parseProcCpuInfo\<close> on the content of \<^verbatim>\<open>/proc/cpuinfo\<close>, or \<open>None\<close> when the file
  cannot be opened.  The loop runs over the results of \<^verbatim>\<open>fgets\<close>, so a line of more than
  255 characters with its line feed is read in pieces.
\<close>

definition parseProcCpuInfo ::
  "stringToInt_t \<Rightarrow> bool \<Rightarrow> 32 word list \<Rightarrow> string option
    \<Rightarrow> failure + (string \<times> 32 word list)" where
  "parseProcCpuInfo stringToInt justGetHardwareName ids file =
     (case file of
        None \<Rightarrow> Inr ([], ids)
      | Some content \<Rightarrow>
          parse_finish
            (parse_lines stringToInt justGetHardwareName (parse_init ids) (fgets_lines content)))"
subsection \<open>Kinds of lines\<close>

text \<open>
  What the loop body reads in one result of \<^verbatim>\<open>fgets\<close>: an empty line, a line that
  starts with one of the four keys, with the text after its colon (\<open>None\<close> where the
  colon or the text is missing), or any other line.  \<open>line_step\<close> is the loop body by
  kind of line.
\<close>

datatype line_kind =
  Blank
  | HardwareLine "string option"
  | ImplementerLine "string option"
  | PartLine "string option"
  | ProcessorLine "string option"
  | OtherLine

definition classify :: "string \<Rightarrow> line_kind" where
  "classify buf =
     (let len = length (c_str buf);
          temp = take (len - 1) (c_str buf);
          text = (case strchr temp CHR '':'' of
                    None \<Rightarrow> None
                  | Some offset \<Rightarrow>
                      if offset + 2 \<ge> length temp then None else Some (drop (offset + 2) temp))
      in if len = 1 then Blank
         else if strncmp_eq temp HARDWARE then HardwareLine text
         else if strncmp_eq temp CPU_IMPLEMENTER then ImplementerLine text
         else if strncmp_eq temp CPU_PART then PartLine text
         else if strncmp_eq temp PROCESSOR then ProcessorLine text
         else OtherLine)"

definition line_step :: "stringToInt_t \<Rightarrow> bool \<Rightarrow> parse_state \<Rightarrow> line_kind \<Rightarrow> parse_flow" where
  "line_step stringToInt justGetHardwareName s k =
     (case k of
        Blank \<Rightarrow>
          Continue (s \<lparr> processor := UNKNOWN_PROCESSOR, foundProcessorInSection := False \<rparr>)
      | HardwareLine v \<Rightarrow>
          (if foundCoreName s then Continue s
           else case v of None \<Rightarrow> Return (hardwareName s) (cpuIds s)
                | Some position \<Rightarrow> on_hardware justGetHardwareName s position)
      | ImplementerLine v \<Rightarrow>
          (case v of None \<Rightarrow> Return (hardwareName s) (cpuIds s)
           | Some position \<Rightarrow> on_implementer stringToInt s position)
      | PartLine v \<Rightarrow>
          (case v of None \<Rightarrow> Return (hardwareName s) (cpuIds s)
           | Some position \<Rightarrow> on_part stringToInt s position)
      | ProcessorLine v \<Rightarrow>
          (case v of None \<Rightarrow> Return (hardwareName s) (cpuIds s)
           | Some position \<Rightarrow> on_processor stringToInt s position)
      | OtherLine \<Rightarrow> Continue s)"

fun line_steps :: "stringToInt_t \<Rightarrow> bool \<Rightarrow> parse_state \<Rightarrow> line_kind list \<Rightarrow> parse_flow" where
  "line_steps stringToInt justGetHardwareName s [] = Continue s"
| "line_steps stringToInt justGetHardwareName s (k # ks) =
     and_then (line_step stringToInt justGetHardwareName s k)
       (\<lambda>s'. line_steps stringToInt justGetHardwareName s' ks)"

text \<open>The span that a pass or the loop leaves, where it returns or goes on.\<close>

definition flow_cpuIds :: "parse_flow \<Rightarrow> 32 word list option" where
  "flow_cpuIds r =
     (case r of Continue s \<Rightarrow> Some (cpuIds s) | Return name ids \<Rightarrow> Some ids | Raise f \<Rightarrow> None)"

text \<open>
  What a line read while the current processor is unknown adds to the out-of-place id:
  the value of a \<^verbatim>\<open>CPU implementer\<close> line by \<^verbatim>\<open>setImplementer\<close> and that of a
  \<^verbatim>\<open>CPU part\<close> line by \<^verbatim>\<open>setPart\<close>, where \<^verbatim>\<open>stringToInt\<close> converts it.
\<close>

definition out_of_place_line :: "stringToInt_t \<Rightarrow> line_kind \<Rightarrow> 32 word \<Rightarrow> 32 word" where
  "out_of_place_line stringToInt k cpuId =
     (case k of
        ImplementerLine (Some position) \<Rightarrow>
          (case stringToInt position 0 of
             None \<Rightarrow> cpuId
           | Some implementer \<Rightarrow> setImplementer cpuId implementer)
      | PartLine (Some position) \<Rightarrow>
          (case stringToInt position 0 of
             None \<Rightarrow> cpuId
           | Some part \<Rightarrow> setPart cpuId part)
      | _ \<Rightarrow> cpuId)"

text \<open>
  A line of the file that one call of \<^verbatim>\<open>fgets(temp, 256, f)\<close> returns whole: it ends
  with its line feed and has at most 255 characters with it.
\<close>

definition text_line :: "string \<Rightarrow> bool" where
  "text_line l \<longleftrightarrow>
     l \<noteq> [] \<and> last l = CHR 0x0A \<and> CHR 0x0A \<notin> set (butlast l) \<and> length l \<le> 255"

text \<open>
  The format of \<^verbatim>\<open>/proc/cpuinfo\<close> before Linux 3.8, by kind of line: one
  \<^verbatim>\<open>CPU implementer\<close> line with the text \<open>vx\<close> and one \<^verbatim>\<open>CPU part\<close> line with the text
  \<open>vy\<close>, neither with a \<^verbatim>\<open>processor\<close> line before it in its section; the
  \<^verbatim>\<open>processor\<close> and \<^verbatim>\<open>Hardware\<close> lines have a text after their colon.  The part line may
  be the first of the two where \<open>part_first\<close> holds.  The phase is 0 before the two lines,
  1 after the implementer line alone, 3 after the part line alone and 2 after both, and
  \<open>b\<close> tells that the section has a \<^verbatim>\<open>processor\<close> line so far.
\<close>

fun pre38_style :: "string \<Rightarrow> string \<Rightarrow> bool \<Rightarrow> nat \<Rightarrow> bool \<Rightarrow> line_kind list \<Rightarrow> bool" where
  "pre38_style vx vy part_first phase b [] = (phase = 2)"
| "pre38_style vx vy part_first phase b (Blank # ks) = pre38_style vx vy part_first phase False ks"
| "pre38_style vx vy part_first phase b (OtherLine # ks) = pre38_style vx vy part_first phase b ks"
| "pre38_style vx vy part_first phase b (HardwareLine v # ks) =
     (v \<noteq> None \<and> pre38_style vx vy part_first phase b ks)"
| "pre38_style vx vy part_first phase b (ProcessorLine v # ks) =
     (v \<noteq> None \<and> pre38_style vx vy part_first phase True ks)"
| "pre38_style vx vy part_first phase b (ImplementerLine v # ks) =
     ((phase = 0 \<or> phase = 3) \<and> \<not> b \<and> v = Some vx
      \<and> pre38_style vx vy part_first (if phase = 0 then 1 else 2) b ks)"
| "pre38_style vx vy part_first phase b (PartLine v # ks) =
     ((phase = 1 \<or> phase = 0 \<and> part_first) \<and> \<not> b \<and> v = Some vy
      \<and> pre38_style vx vy part_first (if phase = 1 then 2 else 3) b ks)"

text \<open>The processor numbers that the \<^verbatim>\<open>processor\<close> lines give, as \<^verbatim>\<open>size_t\<close>.\<close>

definition processor_numbers :: "stringToInt_t \<Rightarrow> line_kind list \<Rightarrow> nat set" where
  "processor_numbers stringToInt ks =
     {size_t_of_int n | v n. ProcessorLine (Some v) \<in> set ks \<and> stringToInt v 0 = Some n}"

text \<open>
  What holds of the state of the loop on such a file, in a phase and with the values
  \<open>x\<close> and \<open>y\<close> of the pair: outside a section with a \<^verbatim>\<open>processor\<close> line the current
  processor is unknown, and the out-of-place id is -1, then \<^verbatim>\<open>x << 12\<close> or a \<open>y\<close> that is
  not -1, then \<^verbatim>\<open>(x << 12) | y\<close>.
\<close>

definition pre38_inv :: "32 word \<Rightarrow> 32 word \<Rightarrow> nat \<Rightarrow> bool \<Rightarrow> parse_state \<Rightarrow> bool" where
  "pre38_inv x y phase b s \<longleftrightarrow>
     (\<not> b \<longrightarrow> processor s = UNKNOWN_PROCESSOR)
     \<and> (phase = 0 \<longrightarrow> outOfPlaceCpuId s = - 1)
     \<and> (phase = 1 \<longrightarrow> outOfPlaceCpuId s = push_bit 12 x \<and> invalidFormat s)
     \<and> (phase = 2 \<longrightarrow> outOfPlaceCpuId s = push_bit 12 x OR y \<and> invalidFormat s)
     \<and> (phase = 3 \<longrightarrow> outOfPlaceCpuId s = y \<and> y \<noteq> - 1 \<and> invalidFormat s)"

text \<open>
  What the loop has done from the state \<open>s\<close> to the state \<open>s'\<close> over lines of that format:
  the span is as it was, the out-of-place id is \<open>g\<close>, the format is marked invalid, and
  \<^verbatim>\<open>minProcessor\<close> and \<^verbatim>\<open>maxProcessor\<close> are the least and the greatest of their values in
  \<open>s\<close> and the processor numbers of the lines.
\<close>

definition scanned ::
  "stringToInt_t \<Rightarrow> 32 word \<Rightarrow> parse_state \<Rightarrow> line_kind list \<Rightarrow> parse_state \<Rightarrow> bool" where
  "scanned f g s ks s' \<longleftrightarrow>
     cpuIds s' = cpuIds s \<and> outOfPlaceCpuId s' = g \<and> invalidFormat s'
     \<and> minProcessor s' \<le> minProcessor s
     \<and> (\<forall>p\<in>processor_numbers f ks. minProcessor s' \<le> p)
     \<and> (minProcessor s' = minProcessor s \<or> minProcessor s' \<in> processor_numbers f ks)
     \<and> maxProcessor s \<le> maxProcessor s'
     \<and> (\<forall>p\<in>processor_numbers f ks. p \<le> maxProcessor s')
     \<and> (maxProcessor s' = maxProcessor s \<or> maxProcessor s' \<in> processor_numbers f ks)"

subsection \<open>An instance of the integer parsers\<close>

text \<open>
  Modelled from the spec: \<^verbatim>\<open>stringToLong\<close> and \<^verbatim>\<open>stringToInt\<close> of OlyUtility, which is not
  among the sources, as ``a permissive integer parser honouring an explicit or detected
  radix'': after an optional sign, the prefix \<^verbatim>\<open>0x\<close> selects base 16 where the base is 0
  or 16, a leading \<^verbatim>\<open>0\<close> selects base 8 where the base is 0, and base 0 is base 10
  otherwise; the whole string must be digits of the base, at least one, and the value
  must fit the type.  The theorems below hold for every parser; this one instantiates
  them.
\<close>

definition digit_val :: "char \<Rightarrow> nat option" where
  "digit_val c =
     (let n = (of_char c :: nat)
      in if 48 \<le> n \<and> n \<le> 57 then Some (n - 48)
         else if 97 \<le> n \<and> n \<le> 122 then Some (n - 87)
         else if 65 \<le> n \<and> n \<le> 90 then Some (n - 55)
         else None)"

fun parse_digits :: "nat \<Rightarrow> nat \<Rightarrow> string \<Rightarrow> nat option" where
  "parse_digits base acc [] = Some acc"
| "parse_digits base acc (c # cs) =
     (case digit_val c of
        None \<Rightarrow> None
      | Some d \<Rightarrow> if d < base then parse_digits base (acc * base + d) cs else None)"

definition parse_integer :: "string \<Rightarrow> nat \<Rightarrow> int option" where
  "parse_integer str base =
     (let (negative, s1) =
            (case str of
               [] \<Rightarrow> (False, str)
             | c # cs \<Rightarrow> if c = CHR ''-'' then (True, cs)
                         else if c = CHR ''+'' then (False, cs) else (False, str));
          (radix, s2) =
            (if (base = 0 \<or> base = 16) \<and> (take 2 s1 = ''0x'' \<or> take 2 s1 = ''0X'')
             then (16, drop 2 s1)
             else if base = 0 then (if take 1 s1 = ''0'' then (8, s1) else (10, s1))
             else (base, s1))
      in if s2 = [] then None
         else map_option (\<lambda>n. if negative then - int n else int n) (parse_digits radix 0 s2))"

definition stringToLong_spec :: stringToLong_t where
  "stringToLong_spec str base =
     (case parse_integer str base of
        None \<Rightarrow> None
      | Some v \<Rightarrow> if - (2 ^ 63) \<le> v \<and> v \<le> LONG_MAX then Some (word_of_int v) else None)"

definition stringToInt_spec :: stringToInt_t where
  "stringToInt_spec str base =
     (case parse_integer str base of
        None \<Rightarrow> None
      | Some v \<Rightarrow> if - (2 ^ 31) \<le> v \<and> v \<le> 2 ^ 31 - 1 then Some (word_of_int v) else None)"

text \<open>
  The decimal digits of a number, and the directory entry \<^verbatim>\<open>cpu{k}\<close> of sysfs.
\<close>

fun dec :: "nat \<Rightarrow> string" where
  "dec n = (if n < 10 then [char_of (48 + n)] else dec (n div 10) @ [char_of (48 + n mod 10)])"

declare dec.simps [simp del]

definition cpu_entry :: "nat \<Rightarrow> string" where
  "cpu_entry k = ''cpu'' @ dec k"

text \<open>
  The core number that the loop of \<^verbatim>\<open>getMaxCoreNum\<close> reads in a directory entry, where
  it reads one.
\<close>

definition candidate :: "stringToLong_t \<Rightarrow> string \<Rightarrow> int option" where
  "candidate s2l e = (if strncmp_eq e ''cpu'' then map_option sint (s2l (drop 3 e) 10) else None)"

text \<open>
  A line of \<^verbatim>\<open>/proc/cpuinfo\<close> as the kernel prints it and \<^verbatim>\<open>fgets\<close> returns it: the
  key, a tab, a colon, a space, the value and the line feed; and the empty line between
  two sections.
\<close>

definition cpuinfo_line :: "string \<Rightarrow> string \<Rightarrow> string" where
  "cpuinfo_line k v = k @ [CHR 0x09] @ '': '' @ v @ [CHR 0x0A]"

definition blank_line :: string where
  "blank_line = [CHR 0x0A]"

subsection \<open>Concrete instances\<close>

text \<open>
  An instance of the build parameters and of a configuration, on which the theorems below
  are instantiated: register unwinding compiled in, an attribute of 128 bytes, and a
  leader required by the per-cluster and the uncore groups.  The configuration has no
  \<^verbatim>\<open>has_attr_context_switch\<close>; its first argument is \<^verbatim>\<open>is_system_wide\<close>.
\<close>

definition build_example :: build where
  "build_example =
     \<lparr> CONFIG_PERF_SUPPORT_REGISTER_UNWINDING = True,
       sizeof_perf_event_attr = 128,
       requiresLeader = (\<lambda>t. t = PER_CLUSTER_CPU \<or> t = UNCORE_PMU) \<rparr>"

definition config_example :: "bool \<Rightarrow> perf_event_group_configurer_config_t" where
  "config_example system_wide =
     \<lparr> perfConfig =
         \<lparr> is_system_wide = system_wide, has_sample_identifier = True,
           has_attr_clockid_support = True, has_attr_comm_exec = True,
           has_attr_context_switch = False, has_count_sw_dummy = True,
           has_exclude_callchain_kernel = True, can_access_tracepoints = True,
           use_64bit_register_set = True, exclude_kernel = False \<rparr>,
       ringbuffer_config = \<lparr> data_buffer_size = 1048576, aux_buffer_size = 1048576 \<rparr>,
       excludeKernelEvents = False,
       backtraceDepth = 0,
       sampleRate = 1000,
       enablePeriodicSampling = True,
       schedSwitchId = 42,
       schedSwitchKey = 1,
       dummyKeyCounter = - 2 \<rparr>"

definition configurer_example :: "bool \<Rightarrow> Type \<Rightarrow> perf_event_group_configurer_t" where
  "configurer_example system_wide t =
     \<lparr> config = config_example system_wide, identifierType = t, events = [] \<rparr>"

definition attr_example :: Attr where
  "attr_example = Attr_default \<lparr> sampleType := PERF_SAMPLE_READ, periodOrFreq := 1000 \<rparr>"

section \<open>Properties of the perf event groups\<close>

subsection \<open>The watermark and the results of initEvent and addEvent\<close>

lemma caw_None: "calculate_aux_watermark m c = None \<longleftrightarrow> c = 0"
  by (simp add: calculate_aux_watermark_def Let_def)

lemma aux_None:
  "(if hasAuxData then calculate_aux_watermark m c else Some 0) = None \<longleftrightarrow> hasAuxData \<and> c = 0"
  by (simp add: caw_None)

lemma initEvent_Inl:
  "initEvent b cfg event is_header requires_leader gtype leader trk k a hasAuxData = Inl f
   \<longleftrightarrow> f = DivisionByZero \<and> hasAuxData \<and> periodOrFreq a = 0"
proof (cases "(if hasAuxData then calculate_aux_watermark (aux_buffer_size (ringbuffer_config cfg)) (periodOrFreq a) else Some 0)")
  case None
  then show ?thesis using aux_None[THEN iffD1, OF None] by (auto simp: initEvent_def)
next
  case (Some aux)
  then have "\<not> (hasAuxData \<and> periodOrFreq a = 0)" using aux_None[of hasAuxData "aux_buffer_size (ringbuffer_config cfg)" "periodOrFreq a"] by simp
  with Some show ?thesis by (simp add: initEvent_def Let_def)
qed

lemma initEvent_Inr:
  assumes "initEvent b cfg event is_header requires_leader gtype leader trk k a hasAuxData = Inr (ok, event', trk')"
  shows "\<exists>aux. attr event' = (initEvent_attr b cfg (attr event) is_header requires_leader leader a aux)
            \<lparr> context_switch := (if gtype = SPE \<and> ok then 1 else of_bool (Attr.context_switch a)) \<rparr>
          \<and> key event' = k
          \<and> ok = (\<not> (gtype = SPE \<and> \<not> has_attr_context_switch (perfConfig cfg)))
          \<and> trk' = (if ok then trk @ [(k, attr event')] else trk)"
proof (cases "(if hasAuxData then calculate_aux_watermark (aux_buffer_size (ringbuffer_config cfg)) (periodOrFreq a) else Some 0)")
  case None
  with assms show ?thesis by (simp add: initEvent_def)
next
  case (Some aux)
  have cs: "r\<lparr>context_switch := context_switch r\<rparr> = r" for r :: perf_event_attr by simp
  have c0: "context_switch (initEvent_attr b cfg (attr event) is_header requires_leader leader a aux) = of_bool (Attr.context_switch a)"
    by (simp add: initEvent_attr_def Let_def split del: if_split)
  consider (fail) "gtype = SPE" "\<not> has_attr_context_switch (perfConfig cfg)"
    | (spe) "gtype = SPE" "has_attr_context_switch (perfConfig cfg)"
    | (other) "gtype \<noteq> SPE" by blast
  then show ?thesis
  proof cases
    case fail
    with assms Some cs[of "initEvent_attr b cfg (attr event) is_header requires_leader leader a aux"] c0
    show ?thesis by (intro exI[of _ aux]) (auto simp add: initEvent_def Let_def)
  next
    case spe
    with assms Some show ?thesis by (intro exI[of _ aux]) (auto simp add: initEvent_def Let_def)
  next
    case other
    with assms Some cs[of "initEvent_attr b cfg (attr event) is_header requires_leader leader a aux"] c0
    show ?thesis by (intro exI[of _ aux]) (auto simp add: initEvent_def Let_def)
  qed
qed

lemma initEvent_attr_fields:
  fixes b cfg ea is_header requires_leader leader a aux
  defines "r \<equiv> initEvent_attr b cfg ea is_header requires_leader leader a aux"
  shows "sample_type r =
           (let sample_type0 =
              PERF_SAMPLE_TIME
              OR (sampleType a AND NOT (if is_system_wide (perfConfig cfg) then 0 else PERF_SAMPLE_READ))
              OR (if has_sample_identifier (perfConfig cfg) then PERF_SAMPLE_IDENTIFIER
                  else PERF_SAMPLE_TID OR PERF_SAMPLE_IP OR PERF_SAMPLE_ID)
              OR (if Attr.type a = PERF_TYPE_TRACEPOINT then PERF_SAMPLE_PERIOD else 0)
              OR (if is_system_wide (perfConfig cfg) \<and> \<not> Attr.context_switch a then 0 else PERF_SAMPLE_TID)
              OR (if Attr.freq a then PERF_SAMPLE_PERIOD else 0)
            in if CONFIG_PERF_SUPPORT_REGISTER_UNWINDING b \<and> sample_type0 AND PERF_SAMPLE_CALLCHAIN \<noteq> 0
               then sample_type0 OR PERF_SAMPLE_REGS_USER else sample_type0)"
    and "inherit r = of_bool (\<not> (is_system_wide (perfConfig cfg) \<or> is_header))"
    and "read_format r =
           (if leader \<and> (is_system_wide (perfConfig cfg) \<or> is_header) \<and> requires_leader \<and> \<not> is_header
            then PERF_FORMAT_ID OR PERF_FORMAT_GROUP else PERF_FORMAT_ID)"
    and "pinned r =
           (if leader \<or> \<not> (is_system_wide (perfConfig cfg) \<or> is_header) \<or> \<not> requires_leader \<or> is_header
            then 1 else 0)"
    and "disabled r = pinned r"
    and "perf_event_attr.type r = Attr.type a"
    and "perf_event_attr.config r = Attr.config a"
    and "sample_period r = periodOrFreq a"
  unfolding r_def
  by (simp_all add: initEvent_attr_def Let_def split del: if_split cong: if_cong) auto

lemma bit_PERF_SAMPLE:
  "bit PERF_SAMPLE_IP n \<longleftrightarrow> n = 0"
  "bit PERF_SAMPLE_TID n \<longleftrightarrow> n = 1"
  "bit PERF_SAMPLE_TIME n \<longleftrightarrow> n = 2"
  "bit PERF_SAMPLE_READ n \<longleftrightarrow> n = 4"
  "bit PERF_SAMPLE_CALLCHAIN n \<longleftrightarrow> n = 5"
  "bit PERF_SAMPLE_ID n \<longleftrightarrow> n = 6"
  "bit PERF_SAMPLE_PERIOD n \<longleftrightarrow> n = 8"
  "bit PERF_SAMPLE_RAW n \<longleftrightarrow> n = 10"
  "bit PERF_SAMPLE_REGS_USER n \<longleftrightarrow> n = 12"
  "bit PERF_SAMPLE_IDENTIFIER n \<longleftrightarrow> n = 16"
  "bit PERF_FORMAT_ID n \<longleftrightarrow> n = 2"
  "bit PERF_FORMAT_GROUP n \<longleftrightarrow> n = 3"
  unfolding PERF_SAMPLE_IP_def PERF_SAMPLE_TID_def PERF_SAMPLE_TIME_def PERF_SAMPLE_READ_def
    PERF_SAMPLE_CALLCHAIN_def PERF_SAMPLE_ID_def PERF_SAMPLE_PERIOD_def PERF_SAMPLE_RAW_def
    PERF_SAMPLE_REGS_USER_def PERF_SAMPLE_IDENTIFIER_def PERF_FORMAT_ID_def PERF_FORMAT_GROUP_def
  by (simp_all only: bit_exp_iff) auto

lemma sample_type_no_read:
  assumes "\<not> is_system_wide (perfConfig cfg)"
  shows "sample_type (initEvent_attr b cfg ea is_header requires_leader leader a aux) AND PERF_SAMPLE_READ = 0"
  using assms unfolding initEvent_attr_fields(1) Let_def
  by (intro bit_eqI) (auto simp: bit_simps bit_PERF_SAMPLE)

lemma format_id_no_group: "PERF_FORMAT_ID AND PERF_FORMAT_GROUP = 0"
  by (rule bit_eqI) (auto simp: bit_simps bit_PERF_SAMPLE)

lemma addEvent_Inl:
  "addEvent b c leader t k a h = Inl f \<longleftrightarrow>
     f = DivisionByZero \<and> \<not> (leader \<and> events c \<noteq> []) \<and> length (events c) < INT_MAX \<and> h \<and> periodOrFreq a = 0"
proof (cases "(leader \<and> events c \<noteq> []) \<or> length (events c) \<ge> INT_MAX")
  case True
  then show ?thesis by (auto simp: addEvent_def)
next
  case False
  then have eq: "addEvent b c leader t k a h =
      (case initEvent b (perf_event_group_configurer_t.config c) perf_event_zero False
               (requiresLeader b (identifierType c)) (identifierType c) leader t k a h of
          Inl f \<Rightarrow> Inl f
        | Inr (ok, event, tracker') \<Rightarrow> Inr (ok, c \<lparr> events := events c @ [event] \<rparr>, tracker'))"
    by (auto simp: addEvent_def)
  let ?r = "initEvent b (perf_event_group_configurer_t.config c) perf_event_zero False
               (requiresLeader b (identifierType c)) (identifierType c) leader t k a h"
  show ?thesis
  proof (cases ?r)
    case (Inl f0)
    then have f0: "f0 = DivisionByZero \<and> h \<and> periodOrFreq a = 0" by (simp add: initEvent_Inl)
    have "addEvent b c leader t k a h = Inl f0" by (simp add: eq Inl)
    with f0 False show ?thesis by auto
  next
    case (Inr r)
    have "\<not> (h \<and> periodOrFreq a = 0)"
    proof
      assume "h \<and> periodOrFreq a = 0"
      then have "?r = Inl DivisionByZero" by (simp add: initEvent_Inl)
      with Inr show False by simp
    qed
    moreover have "addEvent b c leader t k a h \<noteq> Inl f"
      by (simp add: eq Inr split: prod.splits)
    ultimately show ?thesis by auto
  qed
qed

lemma addEvent_Inr:
  assumes "addEvent b c leader t k a h = Inr (ok, c', t')"
  shows "(leader \<and> events c \<noteq> [] \<or> length (events c) \<ge> INT_MAX) \<and> \<not> ok \<and> c' = c \<and> t' = t
       \<or> \<not> (leader \<and> events c \<noteq> []) \<and> length (events c) < INT_MAX
          \<and> (\<exists>e. initEvent b (perf_event_group_configurer_t.config c) perf_event_zero False
               (requiresLeader b (identifierType c)) (identifierType c) leader t k a h = Inr (ok, e, t')
               \<and> c' = c \<lparr> events := events c @ [e] \<rparr>)"
  using assms
  by (auto simp: addEvent_def split: if_splits sum.splits prod.splits)

lemma addEvent_True:
  assumes "addEvent b c leader t k a h = Inr (True, c', t')"
  shows "\<exists>e. events c' = events c @ [e]
           \<and> perf_event_group_configurer_t.config c' = perf_event_group_configurer_t.config c
           \<and> identifierType c' = identifierType c
           \<and> (leader \<longrightarrow> events c = [])
           \<and> pinned (attr e) =
               (if leader \<or> \<not> is_system_wide (perfConfig (perf_event_group_configurer_t.config c))
                   \<or> \<not> requiresLeader b (identifierType c) then 1 else 0)
           \<and> disabled (attr e) = pinned (attr e)"
proof -
  from addEvent_Inr[OF assms] obtain e where
    e: "initEvent b (perf_event_group_configurer_t.config c) perf_event_zero False
               (requiresLeader b (identifierType c)) (identifierType c) leader t k a h = Inr (True, e, t')"
     and c': "c' = c \<lparr> events := events c @ [e] \<rparr>" and l: "\<not> (leader \<and> events c \<noteq> [])"
    by auto
  from initEvent_Inr[OF e] obtain aux where
    a: "attr e = (initEvent_attr b (perf_event_group_configurer_t.config c) (attr perf_event_zero) False
           (requiresLeader b (identifierType c)) leader a aux)
            \<lparr> context_switch := (if identifierType c = SPE \<and> True then 1 else of_bool (Attr.context_switch a)) \<rparr>"
    by blast
  show ?thesis
    using l by (intro exI[of _ e]) (simp add: c' a initEvent_attr_fields(4,5))
qed

lemma addEvents_followers:
  assumes "events c \<noteq> []" "requiresLeader b (identifierType c)"
    and "addEvents b c t calls = Some (c', t')"
  shows "\<exists>es. events c' = events c @ es \<and> length es = length calls
           \<and> (\<forall>e\<in>set es. pinned (attr e) =
                 (if is_system_wide (perfConfig (perf_event_group_configurer_t.config c)) then 0 else 1)
               \<and> disabled (attr e) = pinned (attr e))"
  using assms
proof (induction calls arbitrary: c t)
  case Nil
  then show ?case by simp
next
  case (Cons call calls)
  obtain leader k a h where call: "call = (leader, k, a, h)" by (cases call) auto
  from Cons.prems(3) obtain c1 t1 where
    s1: "addEvent b c leader t k a h = Inr (True, c1, t1)" and s2: "addEvents b c1 t1 calls = Some (c', t')"
    by (auto simp: call split: sum.splits prod.splits bool.splits)
  from addEvent_True[OF s1] obtain e where
    e: "events c1 = events c @ [e]"
      "perf_event_group_configurer_t.config c1 = perf_event_group_configurer_t.config c"
      "identifierType c1 = identifierType c" "leader \<longrightarrow> events c = []"
      "pinned (attr e) =
               (if leader \<or> \<not> is_system_wide (perfConfig (perf_event_group_configurer_t.config c))
                   \<or> \<not> requiresLeader b (identifierType c) then 1 else 0)"
      "disabled (attr e) = pinned (attr e)"
    by blast
  have nl: "\<not> leader" using e(4) Cons.prems(1) by auto
  have "events c1 \<noteq> []" "requiresLeader b (identifierType c1)"
    using e Cons.prems by auto
  from Cons.IH[OF this s2] obtain es where
    es: "events c' = events c1 @ es" "length es = length calls"
      "\<forall>e\<in>set es. pinned (attr e) =
                 (if is_system_wide (perfConfig (perf_event_group_configurer_t.config c1)) then 0 else 1)
               \<and> disabled (attr e) = pinned (attr e)"
    by blast
  show ?case
    using es e nl Cons.prems(2)
    by (intro exI[of _ "e # es"]) auto
qed

lemma addEvent_result:
  assumes "addEvent b c leader t k a h = Inr (True, c', t')"
  shows "\<exists>e aux. c' = c \<lparr> events := events c @ [e] \<rparr>
           \<and> attr e = (initEvent_attr b (perf_event_group_configurer_t.config c) perf_event_attr_zero
                         False (requiresLeader b (identifierType c)) leader a aux)
                \<lparr> context_switch := (if identifierType c = SPE then 1 else of_bool (Attr.context_switch a)) \<rparr>
           \<and> key e = k \<and> (leader \<longrightarrow> events c = [])"
proof -
  from addEvent_Inr[OF assms] obtain e where
    e: "initEvent b (perf_event_group_configurer_t.config c) perf_event_zero False
               (requiresLeader b (identifierType c)) (identifierType c) leader t k a h = Inr (True, e, t')"
     and c': "c' = c \<lparr> events := events c @ [e] \<rparr>" and l: "\<not> (leader \<and> events c \<noteq> [])"
    by auto
  from initEvent_Inr[OF e] obtain aux where
    "attr e = (initEvent_attr b (perf_event_group_configurer_t.config c) (attr perf_event_zero) False
           (requiresLeader b (identifierType c)) leader a aux)
            \<lparr> context_switch := (if identifierType c = SPE \<and> True then 1 else of_bool (Attr.context_switch a)) \<rparr>"
    "key e = k"
    by blast
  then show ?thesis using c' l by (intro exI[of _ e] exI[of _ aux]) (simp add: perf_event_zero_def)
qed

lemma addEvent_succeeds:
  assumes "\<not> (leader \<and> events c \<noteq> [])" "length (events c) < INT_MAX"
    and "\<not> (h \<and> periodOrFreq a = 0)"
    and "\<not> (identifierType c = SPE \<and> \<not> has_attr_context_switch (perfConfig (perf_event_group_configurer_t.config c)))"
  shows "\<exists>c' t'. addEvent b c leader t k a h = Inr (True, c', t')"
proof (cases "addEvent b c leader t k a h")
  case (Inl f)
  with assms show ?thesis by (simp add: addEvent_Inl)
next
  case (Inr r)
  obtain ok c' t' where r: "r = (ok, c', t')" by (cases r) auto
  from addEvent_Inr[OF Inr[unfolded r]] assms(1,2) obtain e where
    "initEvent b (perf_event_group_configurer_t.config c) perf_event_zero False
               (requiresLeader b (identifierType c)) (identifierType c) leader t k a h = Inr (ok, e, t')"
    by auto
  from initEvent_Inr[OF this] assms(4) have ok by blast
  with Inr r show ?thesis by simp
qed

lemma addEvent_spe_fails:
  assumes "\<not> (leader \<and> events c \<noteq> [])" "length (events c) < INT_MAX"
    and "\<not> (h \<and> periodOrFreq a = 0)"
    and "identifierType c = SPE" "\<not> has_attr_context_switch (perfConfig (perf_event_group_configurer_t.config c))"
  shows "\<exists>e. initEvent b (perf_event_group_configurer_t.config c) perf_event_zero False
               (requiresLeader b SPE) SPE leader t k a h = Inr (False, e, t)
            \<and> addEvent b c leader t k a h = Inr (False, c \<lparr> events := events c @ [e] \<rparr>, t)"
proof -
  let ?r = "initEvent b (perf_event_group_configurer_t.config c) perf_event_zero False
               (requiresLeader b SPE) SPE leader t k a h"
  obtain r where r: "?r = Inr r" using assms(3) by (cases ?r) (auto simp: initEvent_Inl)
  obtain ok e t' where r': "r = (ok, e, t')" by (cases r) auto
  from initEvent_Inr[OF r[unfolded r']] assms(5) have "\<not> ok" "t' = t" by auto
  with r r' have 1: "?r = Inr (False, e, t)" by simp
  have "addEvent b c leader t k a h = Inr (False, c \<lparr> events := events c @ [e] \<rparr>, t)"
    using assms(1,2) 1 by (auto simp: addEvent_def assms(4))
  with 1 show ?thesis by blast
qed

subsection \<open>The concrete instances\<close>

lemma example_simps:
  "is_system_wide (perfConfig (config_example sw)) = sw"
  "has_attr_context_switch (perfConfig (config_example sw)) = False"
  "can_access_tracepoints (perfConfig (config_example sw)) = True"
  "schedSwitchId (config_example sw) = 42"
  "perf_event_group_configurer_t.config (configurer_example sw ty) = config_example sw"
  "identifierType (configurer_example sw ty) = ty"
  "events (configurer_example sw ty) = []"
  "requiresLeader build_example ty = (ty = PER_CLUSTER_CPU \<or> ty = UNCORE_PMU)"
  "periodOrFreq attr_example = 1000"
  by (simp_all add: config_example_def configurer_example_def build_example_def attr_example_def)

lemma example_two_calls:
  "\<exists>c' t' e1 e2.
     addEvents build_example (configurer_example sw PER_CLUSTER_CPU) []
       [(True, 1, attr_example, False), (False, 2, attr_example, False)] = Some (c', t')
     \<and> events c' = [e1, e2] \<and> pinned (attr e2) = (if sw then 0 else 1)"
proof -
  let ?c = "configurer_example sw PER_CLUSTER_CPU"
  obtain c1 t1 where s1: "addEvent build_example ?c True [] 1 attr_example False = Inr (True, c1, t1)"
    using addEvent_succeeds[of True ?c False attr_example build_example "[]" 1]
    by (auto simp: example_simps INT_MAX_def)
  from addEvent_True[OF s1] obtain e1 where
    c1: "events c1 = [e1]" "perf_event_group_configurer_t.config c1 = config_example sw"
      "identifierType c1 = PER_CLUSTER_CPU"
    by (auto simp: example_simps)
  obtain c2 t2 where s2: "addEvent build_example c1 False t1 2 attr_example False = Inr (True, c2, t2)"
    using addEvent_succeeds[of False c1 False attr_example build_example t1 2]
    by (auto simp: c1 INT_MAX_def)
  from addEvent_True[OF s2] obtain e2 where
    c2: "events c2 = [e1, e2]" "pinned (attr e2) = (if sw then 0 else 1)"
    by (auto simp: c1 example_simps)
  have "addEvents build_example ?c [] [(True, 1, attr_example, False), (False, 2, attr_example, False)]
          = Some (c2, t2)"
    by (simp add: s1 s2)
  with c2 show ?thesis by blast
qed

lemma nextDummyKey_fields:
  "events (snd (nextDummyKey c)) = events c"
  "identifierType (snd (nextDummyKey c)) = identifierType c"
  "perfConfig (perf_event_group_configurer_t.config (snd (nextDummyKey c)))
     = perfConfig (perf_event_group_configurer_t.config c)"
  by (simp_all add: nextDummyKey_def Let_def)

lemma bit_neq0: "bit (w :: 64 word) n \<Longrightarrow> w \<noteq> 0"
  by auto

lemma tracepoint_sample_type:
  assumes "Attr.type a = PERF_TYPE_TRACEPOINT"
    and "sampleType a = (PERF_SAMPLE_TID OR PERF_SAMPLE_READ) OR PERF_SAMPLE_RAW"
  shows "sample_type (initEvent_attr b cfg ea is_header requires_leader leader a aux) AND PERF_SAMPLE_TIME = PERF_SAMPLE_TIME"
    and "is_system_wide (perfConfig cfg) \<Longrightarrow> sample_type (initEvent_attr b cfg ea is_header requires_leader leader a aux) AND PERF_SAMPLE_TID = PERF_SAMPLE_TID"
    and "is_system_wide (perfConfig cfg) \<Longrightarrow> sample_type (initEvent_attr b cfg ea is_header requires_leader leader a aux) AND PERF_SAMPLE_RAW = PERF_SAMPLE_RAW"
  unfolding initEvent_attr_fields(1) Let_def assms
  by (rule bit_eqI; auto simp: bit_simps bit_PERF_SAMPLE)+

subsection \<open>Claims about the perf event groups\<close>

text \<open>
  Claim C1, as amended.  For an SPE group on a kernel without \<^verbatim>\<open>has_attr_context_switch\<close>
  (and with the watermark's division defined: not \<^verbatim>\<open>hasAuxData\<close> with a period of 0),
  \<^verbatim>\<open>initEvent\<close> returns \<^verbatim>\<open>false\<close> and does not call the mapping tracker.  An
  \<^verbatim>\<open>addEvent\<close> call that passes its two checks and fails this way returns \<^verbatim>\<open>false\<close> and
  leaves \<^verbatim>\<open>state.events\<close> one element longer than before: the events before the call,
  followed by the element it appended for \<^verbatim>\<open>initEvent\<close> to fill.
\<close>

theorem spe_requires_context_switch:
  assumes "\<not> has_attr_context_switch (perfConfig cfg)"
    and "\<not> (hasAuxData \<and> periodOrFreq a = 0)"
  shows "(\<exists>e. initEvent b cfg event is_header requires_leader SPE leader t k a hasAuxData
               = Inr (False, e, t))
       \<and> (perf_event_group_configurer_t.config c = cfg \<and> identifierType c = SPE
            \<and> \<not> (leader \<and> events c \<noteq> []) \<and> length (events c) < INT_MAX
          \<longrightarrow> (\<exists>e. addEvent b c leader t k a hasAuxData
                      = Inr (False, c \<lparr> events := events c @ [e] \<rparr>, t)))"
proof (intro conjI impI)
  let ?r = "initEvent b cfg event is_header requires_leader SPE leader t k a hasAuxData"
  obtain r where r: "?r = Inr r" using assms(2) by (cases ?r) (auto simp: initEvent_Inl)
  obtain ok e t' where r': "r = (ok, e, t')" by (cases r) auto
  from initEvent_Inr[OF r[unfolded r']] assms(1) have "\<not> ok" "t' = t" by auto
  with r r' show "\<exists>e. ?r = Inr (False, e, t)" by simp
next
  assume c: "perf_event_group_configurer_t.config c = cfg \<and> identifierType c = SPE
               \<and> \<not> (leader \<and> events c \<noteq> []) \<and> length (events c) < INT_MAX"
  with addEvent_spe_fails[of leader c hasAuxData a b t k] assms
  show "\<exists>e. addEvent b c leader t k a hasAuxData = Inr (False, c \<lparr> events := events c @ [e] \<rparr>, t)"
    by blast
qed

theorem spe_requires_context_switch_witness:
  "(case initEvent build_example (config_example True) perf_event_zero False False SPE False [] 1
           attr_example True of
      Inr (ok, e, t) \<Rightarrow> \<not> ok \<and> t = [] | Inl f \<Rightarrow> False)
   \<and> (case addEvent build_example (configurer_example True SPE) False [] 1 attr_example True of
        Inr (ok, c', t) \<Rightarrow> \<not> ok \<and> length (events c') = 1 \<and> t = [] | Inl f \<Rightarrow> False)"
proof -
  have h: "\<not> has_attr_context_switch (perfConfig (config_example True))"
    "\<not> (True \<and> periodOrFreq attr_example = 0)"
    by (simp_all add: example_simps)
  note th = spe_requires_context_switch[OF h, of build_example perf_event_zero False False False "[]" 1
      "configurer_example True SPE"]
  from th obtain e where
    "initEvent build_example (config_example True) perf_event_zero False False SPE False [] 1
           attr_example True = Inr (False, e, [])" by blast
  moreover from th have "\<exists>e. addEvent build_example (configurer_example True SPE) False [] 1 attr_example True
      = Inr (False, (configurer_example True SPE) \<lparr> events := events (configurer_example True SPE) @ [e] \<rparr>, [])"
    by (simp add: example_simps INT_MAX_def)
  ultimately show ?thesis by (auto simp: example_simps)
qed

text \<open>
  The claim as stated, that the failed call leaves \<^verbatim>\<open>state.events\<close> as it was, fails on
  the empty SPE group of the instance: the call returns \<^verbatim>\<open>false\<close> and the group has an
  event.
\<close>

theorem addEvent_failure_keeps_event:
  "(case addEvent build_example (configurer_example True SPE) False [] 1 attr_example True of
      Inr (ok, c', t) \<Rightarrow> \<not> ok \<and> events c' \<noteq> events (configurer_example True SPE)
    | Inl f \<Rightarrow> False)"
proof -
  from addEvent_spe_fails[of False "configurer_example True SPE" True attr_example build_example "[]" 1]
  obtain e where "addEvent build_example (configurer_example True SPE) False [] 1 attr_example True
      = Inr (False, (configurer_example True SPE) \<lparr> events := events (configurer_example True SPE) @ [e] \<rparr>, [])"
    by (auto simp: example_simps INT_MAX_def)
  then show ?thesis by (simp add: example_simps)
qed

text \<open>
  Claim C2, as amended.  In a group whose identifier requires a leader, after any
  sequence of \<^verbatim>\<open>addEvent\<close> calls that all return \<^verbatim>\<open>true\<close>, the first on the empty group
  with \<^verbatim>\<open>leader == true\<close>, the group has one event per call, the first event has
  \<^verbatim>\<open>pinned == 1\<close> and \<^verbatim>\<open>disabled == 1\<close>, and every other event has \<^verbatim>\<open>pinned == 0\<close> and
  \<^verbatim>\<open>disabled == 0\<close> when the configuration is system-wide, and \<^verbatim>\<open>pinned == 1\<close> and
  \<^verbatim>\<open>disabled == 1\<close> when it is not: with \<^verbatim>\<open>inherit\<close> every attribute is in a group of its
  own and is its leader.
\<close>

theorem leader_pinned_followers:
  assumes "events c = []" "requiresLeader b (identifierType c)"
    and "addEvents b c t ((True, k, a, h) # calls) = Some (c', t')"
  shows "length (events c') = Suc (length calls)
       \<and> pinned (attr (hd (events c'))) = 1 \<and> disabled (attr (hd (events c'))) = 1
       \<and> (\<forall>e\<in>set (tl (events c')).
             pinned (attr e) =
               (if is_system_wide (perfConfig (perf_event_group_configurer_t.config c)) then 0 else 1)
             \<and> disabled (attr e) = pinned (attr e))"
proof -
  from assms(3) obtain c1 t1 where
    s1: "addEvent b c True t k a h = Inr (True, c1, t1)" and s2: "addEvents b c1 t1 calls = Some (c', t')"
    by (auto split: sum.splits prod.splits bool.splits)
  from addEvent_True[OF s1] assms(1) obtain e where
    e: "events c1 = [e]"
      "perf_event_group_configurer_t.config c1 = perf_event_group_configurer_t.config c"
      "identifierType c1 = identifierType c"
      "pinned (attr e) = 1" "disabled (attr e) = 1"
    by auto
  have "events c1 \<noteq> []" "requiresLeader b (identifierType c1)"
    using e assms by auto
  from addEvents_followers[OF this s2] obtain es where
    es: "events c' = events c1 @ es" "length es = length calls"
      "\<forall>e\<in>set es. pinned (attr e) =
                 (if is_system_wide (perfConfig (perf_event_group_configurer_t.config c1)) then 0 else 1)
               \<and> disabled (attr e) = pinned (attr e)"
    by blast
  show ?thesis using es e by simp
qed

theorem leader_pinned_followers_witness:
  "(case addEvents build_example (configurer_example True PER_CLUSTER_CPU) []
           [(True, 1, attr_example, False), (False, 2, attr_example, False)] of
      Some (c', t') \<Rightarrow>
        length (events c') = 2 \<and> pinned (attr (hd (events c'))) = 1
        \<and> disabled (attr (hd (events c'))) = 1 \<and> pinned (attr (events c' ! 1)) = 0
        \<and> disabled (attr (events c' ! 1)) = 0
    | None \<Rightarrow> False)"
proof -
  let ?c = "configurer_example True PER_CLUSTER_CPU"
  from example_two_calls[of True] obtain c' t' e1 e2 where
    r: "addEvents build_example ?c [] [(True, 1, attr_example, False), (False, 2, attr_example, False)]
          = Some (c', t')" and ev: "events c' = [e1, e2]"
    by blast
  have h: "events ?c = []" "requiresLeader build_example (identifierType ?c)"
    by (simp_all add: example_simps)
  from leader_pinned_followers[OF h r] have
    "length (events c') = 2 \<and> pinned (attr (hd (events c'))) = 1
        \<and> disabled (attr (hd (events c'))) = 1 \<and> pinned (attr (events c' ! 1)) = 0
        \<and> disabled (attr (events c' ! 1)) = 0"
    by (simp add: ev example_simps)
  then show ?thesis unfolding r by simp
qed

text \<open>
  The claim as stated, that no other event is pinned, fails in application mode (not
  system-wide): the second event of the per-cluster group of the instance is pinned.
\<close>

theorem follower_pinned_in_application_mode:
  "(case addEvents build_example (configurer_example False PER_CLUSTER_CPU) []
           [(True, 1, attr_example, False), (False, 2, attr_example, False)] of
      Some (c', t') \<Rightarrow> length (events c') = 2 \<and> pinned (attr (events c' ! 1)) = 1
    | None \<Rightarrow> False)"
proof -
  from example_two_calls[of False] obtain c' t' e1 e2 where
    "addEvents build_example (configurer_example False PER_CLUSTER_CPU) []
       [(True, 1, attr_example, False), (False, 2, attr_example, False)] = Some (c', t')"
    "events c' = [e1, e2]" "pinned (attr e2) = 1"
    by auto
  then show ?thesis by (simp del: addEvents.simps)
qed

text \<open>
  Claim C3.  Every event that \<^verbatim>\<open>initEvent\<close> produces with \<^verbatim>\<open>inherit == 1\<close> has neither
  \<^verbatim>\<open>PERF_SAMPLE_READ\<close> in its \<^verbatim>\<open>sample_type\<close> nor \<^verbatim>\<open>PERF_FORMAT_GROUP\<close> in its
  \<^verbatim>\<open>read_format\<close>, whatever the configuration, the flags, the caller's attribute and the
  event it is given, and whether it returns \<^verbatim>\<open>true\<close> or \<^verbatim>\<open>false\<close>.
\<close>

theorem initEvent_inherit_no_read_group:
  assumes "initEvent b cfg event is_header requires_leader gtype leader trk k a hasAuxData = Inr (ok, event', trk')"
    and "inherit (attr event') = 1"
  shows "sample_type (attr event') AND PERF_SAMPLE_READ = 0
       \<and> read_format (attr event') AND PERF_FORMAT_GROUP = 0"
proof -
  from initEvent_Inr[OF assms(1)] obtain aux where
    e: "attr event' = (initEvent_attr b cfg (attr event) is_header requires_leader leader a aux)
            \<lparr> context_switch := (if gtype = SPE \<and> ok then 1 else of_bool (Attr.context_switch a)) \<rparr>"
    by blast
  from assms(2) have nsw: "\<not> is_system_wide (perfConfig cfg)" "\<not> is_header"
    by (simp_all add: e initEvent_attr_fields(2) split: if_splits)
  have "sample_type (attr event') AND PERF_SAMPLE_READ = 0"
    by (simp add: e sample_type_no_read[OF nsw(1)])
  moreover have "read_format (attr event') = PERF_FORMAT_ID"
    using nsw by (simp add: e initEvent_attr_fields(3))
  ultimately show ?thesis by (simp add: format_id_no_group)
qed

theorem initEvent_inherit_no_read_group_witness:
  "(case initEvent build_example (config_example False) perf_event_zero False True PER_CLUSTER_CPU
           True [] 1 attr_example False of
      Inr (ok, e, t) \<Rightarrow>
        inherit (attr e) = 1 \<and> sample_type (attr e) AND PERF_SAMPLE_READ = 0
        \<and> read_format (attr e) AND PERF_FORMAT_GROUP = 0
    | Inl f \<Rightarrow> False)"
proof -
  let ?r = "initEvent build_example (config_example False) perf_event_zero False True PER_CLUSTER_CPU
           True [] 1 attr_example False"
  obtain r where r: "?r = Inr r" by (cases ?r) (auto simp: initEvent_Inl)
  obtain ok e t where r': "r = (ok, e, t)" by (cases r) auto
  note eq = r[unfolded r']
  from initEvent_Inr[OF eq] have inh: "inherit (attr e) = 1"
    by (auto simp: initEvent_attr_fields(2) example_simps)
  from initEvent_inherit_no_read_group[OF eq inh] inh show ?thesis
    by (simp add: eq)
qed

text \<open>
  Claim C4, as amended.  For every \<^verbatim>\<open>mmap_size\<close> and every period of at least 1,
  \<^verbatim>\<open>calculate_aux_watermark\<close> returns a value that is at least 4096, at most
  \<^verbatim>\<open>2*1024*1024\<close>, and at most the larger of 4096 and \<^verbatim>\<open>mmap_size/2\<close>: the lower limit
  of 4096 is applied last, so the value exceeds \<^verbatim>\<open>mmap_size/2\<close> when that is below 4096.
\<close>

theorem calculate_aux_watermark_bounds:
  assumes "1 \<le> count"
  shows "\<exists>w. calculate_aux_watermark mmap_size count = Some w
           \<and> 4096 \<le> unat w \<and> unat w \<le> 2 * 1024 * 1024
           \<and> unat w \<le> max 4096 (unat mmap_size div 2)"
proof -
  define p where
    "p = min (mmap_size div 2) (24 * max (NANO_SECONDS_IN_ONE_SECOND div count) 1 div 10)"
  define q where "q = min p (ucast MAX_SPE_WATERMARK)"
  from assms have count: "count \<noteq> 0" by auto
  have q1: "unat q \<le> 2097152"
    unfolding q_def MAX_SPE_WATERMARK_def
    by (simp add: min_def word_le_nat_alt word_less_nat_alt not_le)
  have q2: "unat q \<le> unat mmap_size div 2"
    unfolding q_def p_def
    by (simp add: min_def word_le_nat_alt unat_div not_le)
  have q3: "unat (ucast q :: 32 word) = unat q"
    using q1 by (simp add: unsigned_ucast_eq take_bit_nat_eq_self)
  have "calculate_aux_watermark mmap_size count = Some (max (ucast q) MIN_SPE_WATERMARK)"
    using count by (simp add: calculate_aux_watermark_def Let_def q_def p_def)
  moreover have "unat (max (ucast q :: 32 word) MIN_SPE_WATERMARK) = max (unat q) 4096"
    using q3 by (simp add: max_def word_le_nat_alt MIN_SPE_WATERMARK_def)
  ultimately show ?thesis using q1 q2 by auto
qed

theorem calculate_aux_watermark_bounds_witness:
  "(1 :: 64 word) \<le> 1000 \<and> calculate_aux_watermark 1048576 1000 = Some 524288
   \<and> 4096 \<le> unat (524288 :: 32 word) \<and> unat (524288 :: 32 word) \<le> 2 * 1024 * 1024
   \<and> unat (524288 :: 32 word) \<le> max 4096 (unat (1048576 :: 64 word) div 2)"
proof -
  have v: "calculate_aux_watermark 1048576 1000 = Some 524288"
    by (simp add: calculate_aux_watermark_def NANO_SECONDS_IN_ONE_SECOND_def
          MAX_SPE_WATERMARK_def MIN_SPE_WATERMARK_def)
  have h: "(1 :: 64 word) \<le> 1000" by simp
  from calculate_aux_watermark_bounds[OF h, of 1048576] v h show ?thesis by simp
qed

text \<open>
  The claim as stated, with the bound \<^verbatim>\<open>mmap_size/2\<close>, fails for an empty buffer: the
  value is 4096 and half the buffer is 0.
\<close>

theorem calculate_aux_watermark_exceeds_half:
  "calculate_aux_watermark 0 1 = Some 4096
   \<and> \<not> unat (4096 :: 32 word) \<le> unat (0 :: 64 word) div 2"
  by (simp add: calculate_aux_watermark_def NANO_SECONDS_IN_ONE_SECOND_def
        MAX_SPE_WATERMARK_def MIN_SPE_WATERMARK_def)

text \<open>
  Claim C5.  On an empty per-cluster group that requires a leader, with
  \<^verbatim>\<open>schedSwitchId == 42\<close> (which is not the sentinel), \<^verbatim>\<open>is_system_wide\<close> and
  \<^verbatim>\<open>can_access_tracepoints\<close>, \<^verbatim>\<open>createCpuGroupLeader\<close> returns \<^verbatim>\<open>true\<close> and the first
  event of the group has \<^verbatim>\<open>type == PERF_TYPE_TRACEPOINT\<close>, \<^verbatim>\<open>config == 42\<close>,
  \<^verbatim>\<open>sample_period == 1\<close>, a \<^verbatim>\<open>sample_type\<close> with \<^verbatim>\<open>PERF_SAMPLE_TIME\<close>,
  \<^verbatim>\<open>PERF_SAMPLE_TID\<close> and \<^verbatim>\<open>PERF_SAMPLE_RAW\<close>, \<^verbatim>\<open>pinned == 1\<close>, \<^verbatim>\<open>disabled == 1\<close>,
  \<^verbatim>\<open>inherit == 0\<close> and \<^verbatim>\<open>read_format == PERF_FORMAT_ID | PERF_FORMAT_GROUP\<close>.
\<close>

theorem createCpuGroupLeader_tracepoint:
  assumes "schedSwitchId (perf_event_group_configurer_t.config c) = 42"
    and "is_system_wide (perfConfig (perf_event_group_configurer_t.config c))"
    and "can_access_tracepoints (perfConfig (perf_event_group_configurer_t.config c))"
    and "identifierType c = PER_CLUSTER_CPU" and "requiresLeader b PER_CLUSTER_CPU"
    and "events c = []"
  shows "\<exists>c' t' e es.
           createCpuGroupLeader b c t = Inr (True, c', t') \<and> events c' = e # es
           \<and> perf_event_attr.type (attr e) = PERF_TYPE_TRACEPOINT
           \<and> perf_event_attr.config (attr e) = 42
           \<and> sample_period (attr e) = 1
           \<and> sample_type (attr e) AND PERF_SAMPLE_TIME = PERF_SAMPLE_TIME
           \<and> sample_type (attr e) AND PERF_SAMPLE_TID = PERF_SAMPLE_TID
           \<and> sample_type (attr e) AND PERF_SAMPLE_RAW = PERF_SAMPLE_RAW
           \<and> pinned (attr e) = 1 \<and> disabled (attr e) = 1 \<and> inherit (attr e) = 0
           \<and> read_format (attr e) = PERF_FORMAT_ID OR PERF_FORMAT_GROUP"
proof -
  let ?cfg = "perf_event_group_configurer_t.config c"
  define a where "a = Attr_default \<lparr> sampleType := PERF_SAMPLE_TID OR PERF_SAMPLE_READ,
                    Attr.mmap := True, Attr.comm := True, Attr.task := True,
                    Attr.type := PERF_TYPE_TRACEPOINT, Attr.config := 42, periodOrFreq := 1,
                    sampleType := (PERF_SAMPLE_TID OR PERF_SAMPLE_READ) OR PERF_SAMPLE_RAW \<rparr>"
  have a: "Attr.type a = PERF_TYPE_TRACEPOINT" "Attr.config a = 42" "periodOrFreq a = 1"
    "sampleType a = (PERF_SAMPLE_TID OR PERF_SAMPLE_READ) OR PERF_SAMPLE_RAW"
    "Attr.config a \<noteq> PERF_COUNT_SW_CPU_CLOCK"
    by (simp_all add: a_def PERF_COUNT_SW_CPU_CLOCK_def)
  have sel: "cpuGroupLeaderAttr ?cfg = Some (a, False)"
    using assms(1,2,3) by (simp add: cpuGroupLeaderAttr_def Let_def a_def UNKNOWN_TRACEPOINT_ID_def)
  obtain c1 t1 where s1: "addEvent b c True t (schedSwitchKey ?cfg) a False = Inr (True, c1, t1)"
    using addEvent_succeeds[of True c False a b t "schedSwitchKey ?cfg"] assms(4,6)
    by (auto simp: INT_MAX_def)
  from addEvent_result[OF s1] assms(4,5,6) obtain e aux where
    c1: "c1 = c \<lparr> events := [e] \<rparr>"
    and e: "attr e = (initEvent_attr b ?cfg perf_event_attr_zero False True True a aux)
                \<lparr> context_switch := of_bool (Attr.context_switch a) \<rparr>"
    by auto
  have fields: "perf_event_attr.type (attr e) = PERF_TYPE_TRACEPOINT
           \<and> perf_event_attr.config (attr e) = 42
           \<and> sample_period (attr e) = 1
           \<and> sample_type (attr e) AND PERF_SAMPLE_TIME = PERF_SAMPLE_TIME
           \<and> sample_type (attr e) AND PERF_SAMPLE_TID = PERF_SAMPLE_TID
           \<and> sample_type (attr e) AND PERF_SAMPLE_RAW = PERF_SAMPLE_RAW
           \<and> pinned (attr e) = 1 \<and> disabled (attr e) = 1 \<and> inherit (attr e) = 0
           \<and> read_format (attr e) = PERF_FORMAT_ID OR PERF_FORMAT_GROUP"
    using assms(2) a(1,2,3)
    by (simp add: e initEvent_attr_fields(2-8) tracepoint_sample_type[OF a(1) a(4)])
  show ?thesis
  proof (cases "0 <s sampleRate ?cfg \<and> enablePeriodicSampling ?cfg")
    case False
    then have "createCpuGroupLeader b c t = Inr (True, c1, t1)"
      by (auto simp: createCpuGroupLeader_def Let_def sel s1)
    with fields c1 show ?thesis by (intro exI[of _ c1] exI[of _ t1] exI[of _ e] exI[of _ "[]"]) simp
  next
    case True
    define pcAttr where "pcAttr = Attr_default
                                  \<lparr> Attr.type := PERF_TYPE_SOFTWARE,
                                    Attr.config := PERF_COUNT_SW_CPU_CLOCK,
                                    sampleType := cpuClockSampleType (0 <s backtraceDepth ?cfg),
                                    periodOrFreq := NANO_SECONDS_IN_ONE_SECOND
                                                     div scast (sampleRate ?cfg) \<rparr>"
    obtain k c1' where nd: "nextDummyKey c1 = (k, c1')" by (cases "nextDummyKey c1") auto
    from nextDummyKey_fields[of c1] nd c1 assms(4)
    have c1': "events c1' = [e]" "identifierType c1' = PER_CLUSTER_CPU" by simp_all
    obtain c2 t2 where s2: "addEvent b c1' False t1 k pcAttr False = Inr (True, c2, t2)"
      using addEvent_succeeds[of False c1' False pcAttr b t1 k] c1'
      by (auto simp: INT_MAX_def)
    from addEvent_result[OF s2] c1' obtain e2 where c2: "events c2 = [e, e2]" by auto
    have "createCpuGroupLeader b c t = Inr (True, c2, t2)"
      using True a(5)
      by (simp add: createCpuGroupLeader_def Let_def sel s1 nd pcAttr_def[symmetric] s2)
    with fields c2 show ?thesis by (intro exI[of _ c2] exI[of _ t2] exI[of _ e] exI[of _ "[e2]"]) simp
  qed
qed

theorem createCpuGroupLeader_tracepoint_witness:
  "(case createCpuGroupLeader build_example (configurer_example True PER_CLUSTER_CPU) [] of
      Inr (ok, c', t') \<Rightarrow>
        ok \<and> perf_event_attr.type (attr (hd (events c'))) = PERF_TYPE_TRACEPOINT
        \<and> perf_event_attr.config (attr (hd (events c'))) = 42
        \<and> sample_period (attr (hd (events c'))) = 1
        \<and> pinned (attr (hd (events c'))) = 1 \<and> disabled (attr (hd (events c'))) = 1
        \<and> inherit (attr (hd (events c'))) = 0
        \<and> read_format (attr (hd (events c'))) = PERF_FORMAT_ID OR PERF_FORMAT_GROUP
    | Inl f \<Rightarrow> False)"
proof -
  let ?c = "configurer_example True PER_CLUSTER_CPU"
  have h: "schedSwitchId (perf_event_group_configurer_t.config ?c) = 42"
    "is_system_wide (perfConfig (perf_event_group_configurer_t.config ?c))"
    "can_access_tracepoints (perfConfig (perf_event_group_configurer_t.config ?c))"
    "identifierType ?c = PER_CLUSTER_CPU" "requiresLeader build_example PER_CLUSTER_CPU"
    "events ?c = []"
    by (simp_all add: example_simps)
  from createCpuGroupLeader_tracepoint[OF h, of "[]"] obtain c' t' e es where
    r: "createCpuGroupLeader build_example ?c [] = Inr (True, c', t')" and ev: "events c' = e # es"
    and f: "perf_event_attr.type (attr e) = PERF_TYPE_TRACEPOINT"
      "perf_event_attr.config (attr e) = 42" "sample_period (attr e) = 1"
      "pinned (attr e) = 1" "disabled (attr e) = 1" "inherit (attr e) = 0"
      "read_format (attr e) = PERF_FORMAT_ID OR PERF_FORMAT_GROUP"
    by blast
  show ?thesis unfolding r by (simp add: ev f)
qed

text \<open>
  Claim C10.  \<^verbatim>\<open>calculate_aux_watermark\<close> has a value exactly when its \<^verbatim>\<open>count\<close> is not
  0, the division by \<^verbatim>\<open>count\<close> being unguarded; \<^verbatim>\<open>initEvent\<close> passes the caller's
  period to it whenever \<^verbatim>\<open>hasAuxData\<close> is set, without a check, so it divides by zero
  exactly when \<^verbatim>\<open>hasAuxData\<close> is set and the period is 0, and so does every
  \<^verbatim>\<open>addEvent\<close> call with such arguments that passes its two checks.
\<close>

theorem aux_watermark_division:
  "(calculate_aux_watermark mmap_size count = None \<longleftrightarrow> count = 0)
   \<and> (initEvent b cfg event is_header requires_leader gtype leader t k a hasAuxData = Inl DivisionByZero
        \<longleftrightarrow> hasAuxData \<and> periodOrFreq a = 0)
   \<and> (addEvent b c leader t k a hasAuxData = Inl DivisionByZero
        \<longleftrightarrow> \<not> (leader \<and> events c \<noteq> []) \<and> length (events c) < INT_MAX \<and> hasAuxData \<and> periodOrFreq a = 0)"
  by (simp add: caw_None initEvent_Inl addEvent_Inl)

section \<open>Properties of the CPU identification\<close>

subsection \<open>The loop body by kind of line\<close>

lemma strncmp_eq_nth:
  assumes "strncmp_eq t k" "i < length k"
  shows "i < length t \<and> t ! i = k ! i"
proof -
  from assms(1) have tk: "take (length k) t = k" by (simp add: strncmp_eq_def)
  then have "length k \<le> length t"
    by (metis length_take min.cobounded1)
  with assms(2) have "i < length t" by simp
  moreover have "t ! i = take (length k) t ! i" using assms(2) by simp
  ultimately show ?thesis using tk by simp
qed

lemma keys_exclusive:
  "strncmp_eq t HARDWARE \<Longrightarrow> \<not> strncmp_eq t CPU_IMPLEMENTER \<and> \<not> strncmp_eq t CPU_PART \<and> \<not> strncmp_eq t PROCESSOR"
  "strncmp_eq t CPU_IMPLEMENTER \<Longrightarrow> \<not> strncmp_eq t HARDWARE \<and> \<not> strncmp_eq t CPU_PART \<and> \<not> strncmp_eq t PROCESSOR"
  "strncmp_eq t CPU_PART \<Longrightarrow> \<not> strncmp_eq t HARDWARE \<and> \<not> strncmp_eq t CPU_IMPLEMENTER \<and> \<not> strncmp_eq t PROCESSOR"
  "strncmp_eq t PROCESSOR \<Longrightarrow> \<not> strncmp_eq t HARDWARE \<and> \<not> strncmp_eq t CPU_IMPLEMENTER \<and> \<not> strncmp_eq t CPU_PART"
proof -
  have h: "strncmp_eq t HARDWARE \<Longrightarrow> t ! 0 = CHR ''H''"
    using strncmp_eq_nth[of t HARDWARE 0] by (simp add: HARDWARE_def)
  have i: "strncmp_eq t CPU_IMPLEMENTER \<Longrightarrow> t ! 0 = CHR ''C'' \<and> t ! 4 = CHR ''i''"
    using strncmp_eq_nth[of t CPU_IMPLEMENTER 0] strncmp_eq_nth[of t CPU_IMPLEMENTER 4] by (simp add: CPU_IMPLEMENTER_def)
  have p: "strncmp_eq t CPU_PART \<Longrightarrow> t ! 0 = CHR ''C'' \<and> t ! 4 = CHR ''p''"
    using strncmp_eq_nth[of t CPU_PART 0] strncmp_eq_nth[of t CPU_PART 4] by (simp add: CPU_PART_def)
  have r: "strncmp_eq t PROCESSOR \<Longrightarrow> t ! 0 = CHR ''p''"
    using strncmp_eq_nth[of t PROCESSOR 0] by (simp add: PROCESSOR_def)
  show "strncmp_eq t HARDWARE \<Longrightarrow> \<not> strncmp_eq t CPU_IMPLEMENTER \<and> \<not> strncmp_eq t CPU_PART \<and> \<not> strncmp_eq t PROCESSOR"
    using h i p r by auto
  show "strncmp_eq t CPU_IMPLEMENTER \<Longrightarrow> \<not> strncmp_eq t HARDWARE \<and> \<not> strncmp_eq t CPU_PART \<and> \<not> strncmp_eq t PROCESSOR"
    using h i p r by auto
  show "strncmp_eq t CPU_PART \<Longrightarrow> \<not> strncmp_eq t HARDWARE \<and> \<not> strncmp_eq t CPU_IMPLEMENTER \<and> \<not> strncmp_eq t PROCESSOR"
    using h i p r by auto
  show "strncmp_eq t PROCESSOR \<Longrightarrow> \<not> strncmp_eq t HARDWARE \<and> \<not> strncmp_eq t CPU_IMPLEMENTER \<and> \<not> strncmp_eq t CPU_PART"
    using h i p r by auto
qed

lemma and_then_Continue [simp]: "and_then (Continue s) f = f s"
  by (simp add: and_then_def)

lemma and_then_Return [simp]: "and_then (Return name ids) f = Return name ids"
  by (simp add: and_then_def)

lemma and_then_Raise [simp]: "and_then (Raise e) f = Raise e"
  by (simp add: and_then_def)

lemma and_then_id [simp]: "and_then r Continue = r"
  by (cases r) (simp_all add: and_then_def)

lemma parse_line_alt:
  fixes buf s stringToInt justGet
  defines "len \<equiv> length (c_str buf)"
  defines "temp \<equiv> take (len - 1) (c_str buf)"
  defines "txt \<equiv> (case strchr temp CHR '':'' of
                    None \<Rightarrow> None
                  | Some offset \<Rightarrow>
                      if offset + 2 \<ge> length temp then None else Some (drop (offset + 2) temp))"
  defines "fH \<equiv> \<not> foundCoreName s \<and> strncmp_eq temp HARDWARE"
  defines "fI \<equiv> strncmp_eq temp CPU_IMPLEMENTER"
  defines "fP \<equiv> strncmp_eq temp CPU_PART"
  defines "fR \<equiv> strncmp_eq temp PROCESSOR"
  shows "parse_line stringToInt justGet s buf =
     (if len = 1
      then Continue (s \<lparr> processor := UNKNOWN_PROCESSOR, foundProcessorInSection := False \<rparr>)
      else if fH \<or> fI \<or> fP \<or> fR then
        (case txt of
           None \<Rightarrow> Return (hardwareName s) (cpuIds s)
         | Some position \<Rightarrow>
             and_then
               (and_then
                 (and_then
                   (if fH then on_hardware justGet s position else Continue s)
                   (\<lambda>s. if fI then on_implementer stringToInt s position else Continue s))
                 (\<lambda>s. if fP then on_part stringToInt s position else Continue s))
               (\<lambda>s. if fR then on_processor stringToInt s position else Continue s))
      else Continue s)"
proof -
  have temp: "(if len > 0 then take (len - 1) (c_str buf) else c_str buf) = temp"
    by (auto simp: temp_def len_def)
  note defs = parse_line_def Let_def len_def[symmetric] temp fH_def[symmetric] fI_def[symmetric]
      fP_def[symmetric] fR_def[symmetric] txt_def
  show ?thesis
  proof (cases "strchr temp CHR '':''")
    case None
    then show ?thesis unfolding defs by (simp split del: if_split cong: if_cong)
  next
    case (Some a)
    show ?thesis
    proof (cases "a + 2 \<ge> length temp")
      case True
      with Some show ?thesis unfolding defs by (simp split del: if_split cong: if_cong)
    next
      case False
      with Some show ?thesis unfolding defs by (simp split del: if_split cong: if_cong)
    qed
  qed
qed


lemma parse_line_classify:
  "parse_line stringToInt justGet s buf = line_step stringToInt justGet s (classify buf)"
proof -
  define len where "len = length (c_str buf)"
  define temp where "temp = take (len - 1) (c_str buf)"
  define tx where "tx = (case strchr temp CHR '':'' of
                    None \<Rightarrow> None
                  | Some offset \<Rightarrow>
                      if offset + 2 \<ge> length temp then None else Some (drop (offset + 2) temp))"
  note pl = parse_line_alt[of stringToInt justGet s buf, folded len_def, folded temp_def, folded tx_def]
  have cl: "classify buf =
      (if len = 1 then Blank
         else if strncmp_eq temp HARDWARE then HardwareLine tx
         else if strncmp_eq temp CPU_IMPLEMENTER then ImplementerLine tx
         else if strncmp_eq temp CPU_PART then PartLine tx
         else if strncmp_eq temp PROCESSOR then ProcessorLine tx
         else OtherLine)"
    unfolding classify_def Let_def len_def[symmetric] temp_def[symmetric] tx_def[symmetric] ..
  consider (blank) "len = 1"
    | (hw) "len \<noteq> 1" "strncmp_eq temp HARDWARE"
    | (impl) "len \<noteq> 1" "strncmp_eq temp CPU_IMPLEMENTER"
    | (part) "len \<noteq> 1" "strncmp_eq temp CPU_PART"
    | (proc) "len \<noteq> 1" "strncmp_eq temp PROCESSOR"
    | (other) "len \<noteq> 1" "\<not> strncmp_eq temp HARDWARE" "\<not> strncmp_eq temp CPU_IMPLEMENTER"
        "\<not> strncmp_eq temp CPU_PART" "\<not> strncmp_eq temp PROCESSOR"
    by blast
  then show ?thesis
  proof cases
    case blank
    then show ?thesis by (simp add: pl cl line_step_def)
  next
    case hw
    with keys_exclusive(1)[OF hw(2)] show ?thesis
      by (cases "foundCoreName s"; cases tx) (simp_all add: pl cl line_step_def)
  next
    case impl
    with keys_exclusive(2)[OF impl(2)] show ?thesis
      by (cases tx) (simp_all add: pl cl line_step_def)
  next
    case part
    with keys_exclusive(3)[OF part(2)] show ?thesis
      by (cases tx) (simp_all add: pl cl line_step_def)
  next
    case proc
    with keys_exclusive(4)[OF proc(2)] show ?thesis
      by (cases tx) (simp_all add: pl cl line_step_def)
  next
    case other
    then show ?thesis by (simp add: pl cl line_step_def)
  qed
qed

lemma parse_lines_classify:
  "parse_lines stringToInt justGet s bufs = line_steps stringToInt justGet s (map classify bufs)"
  by (induction bufs arbitrary: s) (simp_all add: parse_line_classify)

subsection \<open>The results of fgets\<close>

lemma fgets_from_line:
  "CHR 0x0A \<notin> set body \<Longrightarrow> length body < n
     \<Longrightarrow> fgets_from n acc (body @ CHR 0x0A # rest) = (acc @ body @ [CHR 0x0A]) # fgets_from 255 [] rest"
proof (induction body arbitrary: n acc)
  case Nil
  then show ?case by simp
next
  case (Cons c body)
  from Cons.prems have c: "c \<noteq> CHR 0x0A" "\<not> n \<le> 1" "CHR 0x0A \<notin> set body" "length body < n - 1"
    by auto
  from Cons.IH[OF c(3,4), of "acc @ [c]"] c(1,2) show ?case by simp
qed

lemma text_line_body:
  assumes "text_line l"
  obtains body where "l = body @ [CHR 0x0A]" "CHR 0x0A \<notin> set body" "length body < 255"
proof -
  from assms have l: "l \<noteq> []" "last l = CHR 0x0A" "CHR 0x0A \<notin> set (butlast l)" "length l \<le> 255"
    by (simp_all add: text_line_def)
  from l(1,2) have "l = butlast l @ [CHR 0x0A]" by (metis append_butlast_last_id)
  moreover from l(1,4) have "length (butlast l) < 255" by (cases l) auto
  ultimately show ?thesis using l(3) that by blast
qed

lemma fgets_lines_line: "text_line l \<Longrightarrow> fgets_lines (l @ rest) = l # fgets_lines rest"
proof -
  assume "text_line l"
  then obtain body where b: "l = body @ [CHR 0x0A]" "CHR 0x0A \<notin> set body" "length body < 255"
    by (rule text_line_body)
  from fgets_from_line[OF b(2,3), of "[]" rest] show ?thesis
    by (simp add: fgets_lines_def b(1))
qed

lemma fgets_lines_Nil [simp]: "fgets_lines [] = []"
  by (simp add: fgets_lines_def)

lemma fgets_lines_concat:
  "\<forall>l\<in>set ls. text_line l \<Longrightarrow> fgets_lines (concat ls @ rest) = ls @ fgets_lines rest"
  by (induction ls) (simp_all add: fgets_lines_line)

lemma fgets_from_append:
  "fgets_from n acc (a @ CHR 0x0A # b) = fgets_from n acc (a @ [CHR 0x0A]) @ fgets_from 255 [] b"
  by (induction a arbitrary: n acc) simp_all

lemma fgets_lines_append:
  assumes "pre = [] \<or> last pre = CHR 0x0A"
  shows "fgets_lines (pre @ rest) = fgets_lines pre @ fgets_lines rest"
proof (cases "pre = []")
  case True
  then show ?thesis by simp
next
  case False
  with assms have "pre = butlast pre @ [CHR 0x0A]" by (metis append_butlast_last_id)
  then obtain a where a: "pre = a @ [CHR 0x0A]" ..
  from fgets_from_append[of 255 "[]" a rest] show ?thesis
    by (simp add: fgets_lines_def a)
qed

lemma text_line_cpuinfo_line:
  "CHR 0x0A \<notin> set k \<Longrightarrow> CHR 0x0A \<notin> set v \<Longrightarrow> length k + length v \<le> 251
     \<Longrightarrow> text_line (cpuinfo_line k v)"
  by (simp add: text_line_def cpuinfo_line_def butlast_append)

lemma text_line_blank_line: "text_line blank_line"
  by (simp add: text_line_def blank_line_def)

subsection \<open>Counting the cores\<close>

lemma scanCpuEntries_step:
  "scanCpuEntries s2l m (e # es) =
     (case candidate s2l e of
        None \<Rightarrow> scanCpuEntries s2l m es
      | Some c \<Rightarrow> if c \<ge> m then (if c = LONG_MAX then Inl SignedOverflow
                                  else scanCpuEntries s2l (c + 1) es)
                  else scanCpuEntries s2l m es)"
  by (simp add: candidate_def Let_def split: option.splits)

lemma scanCpuEntries_result:
  assumes "\<forall>e\<in>set es. candidate s2l e \<noteq> Some LONG_MAX"
  shows "\<exists>r. scanCpuEntries s2l m es = Inr r \<and> m \<le> r
           \<and> (\<forall>e\<in>set es. \<forall>c. candidate s2l e = Some c \<longrightarrow> c + 1 \<le> r)
           \<and> (r = m \<or> (\<exists>e\<in>set es. candidate s2l e = Some (r - 1)))"
  using assms
proof (induction es arbitrary: m)
  case Nil
  then show ?case by simp
next
  case (Cons e es)
  from Cons.prems have rest: "\<forall>e\<in>set es. candidate s2l e \<noteq> Some LONG_MAX"
    and e: "candidate s2l e \<noteq> Some LONG_MAX" by auto
  show ?case
  proof (cases "candidate s2l e")
    case None
    from Cons.IH[OF rest, of m] None show ?thesis
      by (auto simp: scanCpuEntries_step simp del: scanCpuEntries.simps)
  next
    case (Some c)
    with e have c: "c \<noteq> LONG_MAX" by auto
    show ?thesis
    proof (cases "c \<ge> m")
      case True
      from Cons.IH[OF rest, of "c + 1"] obtain r where
        r: "scanCpuEntries s2l (c + 1) es = Inr r" "c + 1 \<le> r"
          "\<forall>e\<in>set es. \<forall>c. candidate s2l e = Some c \<longrightarrow> c + 1 \<le> r"
          "r = c + 1 \<or> (\<exists>e\<in>set es. candidate s2l e = Some (r - 1))"
        by blast
      have "scanCpuEntries s2l m (e # es) = Inr r"
        using True c Some r(1) by (simp add: scanCpuEntries_step del: scanCpuEntries.simps)
      moreover have "m \<le> r" using True r(2) by simp
      moreover have "\<forall>e'\<in>set (e # es). \<forall>c'. candidate s2l e' = Some c' \<longrightarrow> c' + 1 \<le> r"
        using r(2,3) Some by auto
      moreover have "r = m \<or> (\<exists>e'\<in>set (e # es). candidate s2l e' = Some (r - 1))"
        using r(4) Some by auto
      ultimately show ?thesis by blast
    next
      case False
      from Cons.IH[OF rest, of m] obtain r where
        r: "scanCpuEntries s2l m es = Inr r" "m \<le> r"
          "\<forall>e\<in>set es. \<forall>c. candidate s2l e = Some c \<longrightarrow> c + 1 \<le> r"
          "r = m \<or> (\<exists>e\<in>set es. candidate s2l e = Some (r - 1))"
        by blast
      have "scanCpuEntries s2l m (e # es) = Inr r"
        using False Some r(1) by (simp add: scanCpuEntries_step del: scanCpuEntries.simps)
      moreover have "\<forall>e'\<in>set (e # es). \<forall>c'. candidate s2l e' = Some c' \<longrightarrow> c' + 1 \<le> r"
        using r(2,3) Some False by auto
      moreover have "r = m \<or> (\<exists>e'\<in>set (e # es). candidate s2l e' = Some (r - 1))"
        using r(4) by auto
      ultimately show ?thesis using r(2) by blast
    qed
  qed
qed

lemma sint_of_nat_64: "k < 2 ^ 63 \<Longrightarrow> sint (of_nat k :: 64 word) = int k"
proof -
  assume k: "k < 2 ^ 63"
  have "sint (of_nat k :: 64 word) = signed_take_bit 63 (int k)"
    by (simp add: signed_of_nat)
  also have "\<dots> = int k"
    using k by (intro signed_take_bit_int_eq_self) auto
  finally show ?thesis .
qed

lemma candidate_cpu_entry:
  assumes "s2l (dec k) 10 = Some (of_nat k)" "k < 2 ^ 63"
  shows "candidate s2l (cpu_entry k) = Some (int k)"
  using assms by (simp add: candidate_def cpu_entry_def strncmp_eq_def sint_of_nat_64)

lemma candidate_not_cpu: "\<not> strncmp_eq e ''cpu'' \<Longrightarrow> candidate s2l e = None"
  by (simp add: candidate_def)

lemma scan_cpu_entries_count:
  assumes N: "1 \<le> N" "N < 2 ^ 63"
    and parse: "\<forall>k<N. s2l (dec k) 10 = Some (of_nat k)"
    and entries: "{e \<in> set es. strncmp_eq e ''cpu''} = cpu_entry ` {..<N}"
  shows "scanCpuEntries s2l (- 1) es = Inr (int N)"
proof -
  have cand: "candidate s2l e = Some c \<Longrightarrow> e \<in> set es \<Longrightarrow> \<exists>k<N. c = int k" for e c
  proof -
    assume c: "candidate s2l e = Some c" and e: "e \<in> set es"
    then have "strncmp_eq e ''cpu''" by (auto simp: candidate_def split: if_splits)
    with e entries obtain k where k: "k < N" "e = cpu_entry k" by blast
    with candidate_cpu_entry[of s2l k] parse N c show ?thesis by auto
  qed
  have no_max: "\<forall>e\<in>set es. candidate s2l e \<noteq> Some LONG_MAX"
  proof
    fix e assume e: "e \<in> set es"
    show "candidate s2l e \<noteq> Some LONG_MAX"
    proof
      assume "candidate s2l e = Some LONG_MAX"
      from cand[OF this e] N show False by (auto simp: LONG_MAX_def)
    qed
  qed
  from scanCpuEntries_result[OF no_max, of "- 1"] obtain r where
    r: "scanCpuEntries s2l (- 1) es = Inr r"
      "\<forall>e\<in>set es. \<forall>c. candidate s2l e = Some c \<longrightarrow> c + 1 \<le> r"
      "r = - 1 \<or> (\<exists>e\<in>set es. candidate s2l e = Some (r - 1))"
    by blast
  have last: "cpu_entry (N - 1) \<in> set es" using entries N(1) by auto
  have "candidate s2l (cpu_entry (N - 1)) = Some (int (N - 1))"
    using candidate_cpu_entry[of s2l "N - 1"] parse N by auto
  with r(2) last have lower: "int N \<le> r" using N(1) by fastforce
  with r(3) N(1) obtain e where "e \<in> set es" "candidate s2l e = Some (r - 1)" by auto
  from cand[OF this(2,1)] have "r \<le> int N" by auto
  with lower r(1) show ?thesis by simp
qed


lemma digit_val_char_of: "d < 10 \<Longrightarrow> digit_val (char_of (48 + d)) = Some d" for d :: nat
  by (simp add: digit_val_def Let_def)

lemma parse_digits_append:
  "parse_digits b acc (xs @ ys) =
     (case parse_digits b acc xs of None \<Rightarrow> None | Some a \<Rightarrow> parse_digits b a ys)"
  by (induction xs arbitrary: acc) (auto split: option.splits)

lemma parse_digits_dec: "parse_digits 10 acc (dec n) = Some (acc * 10 ^ length (dec n) + n)"
proof (induction n arbitrary: acc rule: dec.induct)
  case (1 n)
  show ?case
  proof (cases "n < 10")
    case True
    then show ?thesis by (simp add: dec.simps[of n] digit_val_char_of)
  next
    case False
    have d: "dec n = dec (n div 10) @ [char_of (48 + n mod 10)]"
      using False by (subst dec.simps) simp
    have m: "digit_val (char_of (48 + n mod 10)) = Some (n mod 10)"
      by (rule digit_val_char_of) simp
    show ?thesis
      unfolding d parse_digits_append "1.IH"[OF False]
      by (simp add: m algebra_simps)
  qed
qed

lemma dec_hd: "\<exists>d<10. \<exists>cs. dec n = char_of (48 + d :: nat) # cs"
proof (induction n rule: dec.induct)
  case (1 n)
  show ?case
  proof (cases "n < 10")
    case True
    then show ?thesis by (auto simp: dec.simps[of n])
  next
    case False
    have d: "dec n = dec (n div 10) @ [char_of (48 + n mod 10)]"
      using False by (subst dec.simps) simp
    from "1.IH"[OF False] show ?thesis unfolding d by auto
  qed
qed

lemma digit_char_not_sign:
  fixes d :: nat
  assumes "d < 10"
  shows "char_of (48 + d) \<noteq> CHR ''-''" "char_of (48 + d) \<noteq> CHR ''+''"
proof -
  have a: "(of_char (char_of (48 + d)) :: nat) = 48 + d" using assms by simp
  show "char_of (48 + d) \<noteq> CHR ''-''"
  proof
    assume e: "char_of (48 + d) = CHR ''-''"
    have "(of_char (char_of (48 + d)) :: nat) = of_char (CHR ''-'')" by (simp only: e)
    with a show False by simp
  qed
  show "char_of (48 + d) \<noteq> CHR ''+''"
  proof
    assume e: "char_of (48 + d) = CHR ''+''"
    have "(of_char (char_of (48 + d)) :: nat) = of_char (CHR ''+'')" by (simp only: e)
    with a show False by simp
  qed
qed

lemma parse_integer_dec: "parse_integer (dec k) 10 = Some (int k)"
proof -
  from dec_hd[of k] obtain d :: nat and cs where d: "d < 10" "dec k = char_of (48 + d) # cs" by blast
  have "parse_digits 10 0 (dec k) = Some k" by (simp add: parse_digits_dec)
  then show ?thesis
    using digit_char_not_sign[OF d(1)] d(2)
    by (simp add: parse_integer_def)
qed

lemma stringToLong_spec_dec:
  "k < 2 ^ 63 \<Longrightarrow> stringToLong_spec (dec k) 10 = Some (of_nat k)"
  by (simp add: stringToLong_spec_def parse_integer_dec LONG_MAX_def)

lemma getMaxCoreNum_of_scan:
  "scanCpuEntries s2l (- 1) es = Inr m \<Longrightarrow> 1 \<le> m
     \<Longrightarrow> getMaxCoreNum s2l (Some es) = Inr (word_of_int m)"
  by (simp add: getMaxCoreNum_def)

lemma cpu_entry_small:
  "cpu_entry 0 = ''cpu0''" "cpu_entry (Suc 0) = ''cpu1''" "cpu_entry 2 = ''cpu2''"
  by code_simp+

lemma stringToLong_spec_examples:
  "stringToLong_spec ''0'' 10 = Some 0" "stringToLong_spec ''1'' 10 = Some 1"
  "stringToLong_spec ''2'' 10 = Some 2" "stringToLong_spec ''10'' 10 = Some 10"
  "stringToLong_spec ''freq'' 10 = None"
  by code_simp+

subsection \<open>Sections without a known processor\<close>

lemma line_steps_append:
  "line_steps f jg s (ks1 @ ks2) = and_then (line_steps f jg s ks1) (\<lambda>s'. line_steps f jg s' ks2)"
  by (induction ks1 arbitrary: s) (auto simp: and_then_def split: parse_flow.splits)

lemma unknown_step:
  assumes "processor s = UNKNOWN_PROCESSOR" "foundProcessorInSection s" "k \<noteq> Blank"
  shows "(case line_step f jg s k of
            Continue s' \<Rightarrow> cpuIds s' = cpuIds s \<and> processor s' = UNKNOWN_PROCESSOR
                \<and> foundProcessorInSection s' \<and> (invalidFormat s \<longrightarrow> invalidFormat s')
                \<and> outOfPlaceCpuId s' = out_of_place_line f k (outOfPlaceCpuId s)
          | Return name ids \<Rightarrow> ids = cpuIds s
          | Raise e \<Rightarrow> False)"
proof (cases k)
  case Blank
  with assms show ?thesis by simp
next
  case (HardwareLine v)
  with assms show ?thesis
    by (cases v) (simp_all add: line_step_def on_hardware_def out_of_place_line_def)
next
  case (ImplementerLine v)
  with assms show ?thesis
    by (cases v)
       (simp_all add: line_step_def on_implementer_def out_of_place_line_def split: option.splits)
next
  case (PartLine v)
  with assms show ?thesis
    by (cases v)
       (simp_all add: line_step_def on_part_def out_of_place_line_def split: option.splits)
next
  case (ProcessorLine v)
  with assms show ?thesis
    by (cases v)
       (simp_all add: line_step_def on_processor_def Let_def out_of_place_line_def
          split: option.splits)
next
  case OtherLine
  with assms show ?thesis by (simp add: line_step_def out_of_place_line_def)
qed

lemma unknown_section:
  assumes "processor s = UNKNOWN_PROCESSOR" "foundProcessorInSection s" "Blank \<notin> set ks"
  shows "(case line_steps f jg s ks of
            Continue s' \<Rightarrow> cpuIds s' = cpuIds s \<and> processor s' = UNKNOWN_PROCESSOR
                \<and> foundProcessorInSection s' \<and> (invalidFormat s \<longrightarrow> invalidFormat s')
                \<and> outOfPlaceCpuId s' = fold (out_of_place_line f) ks (outOfPlaceCpuId s)
          | Return name ids \<Rightarrow> ids = cpuIds s
          | Raise e \<Rightarrow> False)"
  using assms
proof (induction ks arbitrary: s)
  case Nil
  then show ?case by simp
next
  case (Cons k ks)
  from Cons.prems have k: "k \<noteq> Blank" and ks: "Blank \<notin> set ks" by auto
  note st = unknown_step[OF Cons.prems(1,2) k, of f jg]
  show ?case
  proof (cases "line_step f jg s k")
    case (Continue s1)
    with st have s1: "cpuIds s1 = cpuIds s" "processor s1 = UNKNOWN_PROCESSOR"
      "foundProcessorInSection s1" "invalidFormat s \<longrightarrow> invalidFormat s1"
      "outOfPlaceCpuId s1 = out_of_place_line f k (outOfPlaceCpuId s)" by simp_all
    from Cons.IH[OF s1(2,3) ks] s1(1,4,5) Continue show ?thesis
      by (auto split: parse_flow.splits)
  next
    case (Return name ids)
    with st show ?thesis by simp
  next
    case (Raise e)
    with st show ?thesis by simp
  qed
qed

subsection \<open>The fill and the entries that the loop keeps\<close>

lemma others_steps:
  "\<forall>k\<in>set ks. k = OtherLine \<Longrightarrow> line_steps f jg s ks = Continue s"
  by (induction ks) (simp_all add: line_step_def)

lemma fill_fold:
  assumes "\<forall>p\<in>set ps. p < length ids"
  shows "length (fold (\<lambda>p ids. if ids ! p = - 1 then ids[p := g] else ids) ps ids) = length ids
       \<and> (\<forall>i<length ids.
             fold (\<lambda>p ids. if ids ! p = - 1 then ids[p := g] else ids) ps ids ! i
               = (if i \<in> set ps \<and> ids ! i = - 1 then g else ids ! i))"
  using assms
proof (induction ps arbitrary: ids)
  case Nil
  then show ?case by simp
next
  case (Cons p ps)
  let ?ids' = "if ids ! p = - 1 then ids[p := g] else ids"
  have len: "length ?ids' = length ids" by simp
  have "\<forall>q\<in>set ps. q < length ?ids'" using Cons.prems by simp
  from Cons.IH[OF this] have
    ih: "length (fold (\<lambda>p ids. if ids ! p = - 1 then ids[p := g] else ids) ps ?ids') = length ids"
      "\<forall>i<length ids. fold (\<lambda>p ids. if ids ! p = - 1 then ids[p := g] else ids) ps ?ids' ! i
               = (if i \<in> set ps \<and> ?ids' ! i = - 1 then g else ?ids' ! i)"
    unfolding len by blast+
  have p: "p < length ids" using Cons.prems by simp
  show ?case
  proof (intro conjI allI impI)
    show "length (fold (\<lambda>p ids. if ids ! p = - 1 then ids[p := g] else ids) (p # ps) ids) = length ids"
      using ih(1) by simp
  next
    fix i assume i: "i < length ids"
    from ih(2) i have
      "fold (\<lambda>p ids. if ids ! p = - 1 then ids[p := g] else ids) ps ?ids' ! i
               = (if i \<in> set ps \<and> ?ids' ! i = - 1 then g else ?ids' ! i)" by blast
    then show "fold (\<lambda>p ids. if ids ! p = - 1 then ids[p := g] else ids) (p # ps) ids ! i
               = (if i \<in> set (p # ps) \<and> ids ! i = - 1 then g else ids ! i)"
      using i p by (cases "i = p") (auto simp: nth_list_update)
  qed
qed

lemma fill_out_of_place_length: "length (fill_out_of_place s) = length (cpuIds s)"
proof -
  have "\<forall>p\<in>set [minProcessor s..<(if maxProcessor s < length (cpuIds s) then maxProcessor s + 1
                     else length (cpuIds s))]. p < length (cpuIds s)" by auto
  from fill_fold[OF this] show ?thesis
    by (simp add: fill_out_of_place_def Let_def)
qed

lemma fill_out_of_place_nth:
  assumes "i < length (cpuIds s)"
  shows "fill_out_of_place s ! i =
     (if invalidFormat s \<and> outOfPlaceCpuId s \<noteq> - 1 \<and> minProcessor s \<le> i \<and> i \<le> maxProcessor s
         \<and> cpuIds s ! i = - 1
      then outOfPlaceCpuId s else cpuIds s ! i)"
proof -
  let ?maxP = "if maxProcessor s < length (cpuIds s) then maxProcessor s + 1 else length (cpuIds s)"
  have "\<forall>p\<in>set [minProcessor s..<?maxP]. p < length (cpuIds s)" by auto
  from fill_fold[OF this, of "outOfPlaceCpuId s"] assms have
    "fold (\<lambda>p ids. if ids ! p = - 1 then ids[p := outOfPlaceCpuId s] else ids)
        [minProcessor s..<?maxP] (cpuIds s) ! i
     = (if i \<in> set [minProcessor s..<?maxP] \<and> cpuIds s ! i = - 1 then outOfPlaceCpuId s
        else cpuIds s ! i)" by blast
  moreover have "i \<in> set [minProcessor s..<?maxP] \<longleftrightarrow> minProcessor s \<le> i \<and> i \<le> maxProcessor s"
    using assms by auto
  ultimately show ?thesis
    by (auto simp: fill_out_of_place_def Let_def)
qed

lemma keeps_step:
  assumes "processor s \<noteq> k" "k \<noteq> UNKNOWN_PROCESSOR"
    and "\<forall>v m. kind = ProcessorLine (Some v) \<longrightarrow> f v 0 = Some m \<longrightarrow> size_t_of_int m \<noteq> k"
  shows "(case line_step f jg s kind of
            Continue s' \<Rightarrow> processor s' \<noteq> k \<and> length (cpuIds s') = length (cpuIds s)
                \<and> cpuIds s' ! k = cpuIds s ! k
          | Return name ids \<Rightarrow> ids = cpuIds s
          | Raise e \<Rightarrow> True)"
proof (cases kind)
  case Blank
  with assms show ?thesis by (simp add: line_step_def)
next
  case (HardwareLine v)
  with assms show ?thesis
    by (cases v) (simp_all add: line_step_def on_hardware_def)
next
  case (ImplementerLine v)
  with assms show ?thesis
    by (cases v) (auto simp: line_step_def on_implementer_def split: option.splits)
next
  case (PartLine v)
  with assms show ?thesis
    by (cases v) (auto simp: line_step_def on_part_def split: option.splits)
next
  case (ProcessorLine v)
  with assms show ?thesis
    by (cases v) (auto simp: line_step_def on_processor_def Let_def split: option.splits)
next
  case OtherLine
  with assms show ?thesis by (simp add: line_step_def)
qed

lemma keeps_entry:
  assumes "processor s \<noteq> k" "k \<noteq> UNKNOWN_PROCESSOR"
    and "\<forall>kind\<in>set ks. \<forall>v m. kind = ProcessorLine (Some v) \<longrightarrow> f v 0 = Some m
           \<longrightarrow> size_t_of_int m \<noteq> k"
  shows "(case line_steps f jg s ks of
            Continue s' \<Rightarrow> processor s' \<noteq> k \<and> length (cpuIds s') = length (cpuIds s)
                \<and> cpuIds s' ! k = cpuIds s ! k
          | Return name ids \<Rightarrow> length ids = length (cpuIds s) \<and> ids ! k = cpuIds s ! k
          | Raise e \<Rightarrow> True)"
  using assms
proof (induction ks arbitrary: s)
  case Nil
  then show ?case by simp
next
  case (Cons kind ks)
  from Cons.prems(3) have
    kind: "\<forall>v m. kind = ProcessorLine (Some v) \<longrightarrow> f v 0 = Some m \<longrightarrow> size_t_of_int m \<noteq> k"
    and ks: "\<forall>kind\<in>set ks. \<forall>v m. kind = ProcessorLine (Some v) \<longrightarrow> f v 0 = Some m
           \<longrightarrow> size_t_of_int m \<noteq> k"
    by auto
  have st: "(case line_step f jg s kind of
            Continue s' \<Rightarrow> processor s' \<noteq> k \<and> length (cpuIds s') = length (cpuIds s)
                \<and> cpuIds s' ! k = cpuIds s ! k
          | Return name ids \<Rightarrow> ids = cpuIds s
          | Raise e \<Rightarrow> True)"
    using Cons.prems(1,2) kind by (rule keeps_step[of s k kind f jg])
  show ?case
  proof (cases "line_step f jg s kind")
    case (Continue s1)
    with st have s1: "processor s1 \<noteq> k" "length (cpuIds s1) = length (cpuIds s)"
      "cpuIds s1 ! k = cpuIds s ! k" by simp_all
    from Cons.IH[OF s1(1) Cons.prems(2) ks] s1(2,3) Continue show ?thesis
      by (auto split: parse_flow.splits)
  next
    case (Return name ids)
    with st show ?thesis by simp
  next
    case (Raise e)
    then show ?thesis by simp
  qed
qed

lemma setPart_setImplementer:
  "setPart (setImplementer (- 1) x) y = push_bit 12 x OR y"
proof -
  have "\<not> bit (push_bit 12 x :: 32 word) 0" by (simp add: bit_simps)
  moreover have "bit (- 1 :: 32 word) 0" by simp
  ultimately have "push_bit 12 x \<noteq> (- 1 :: 32 word)" by metis
  then show ?thesis by (simp add: setPart_def setImplementer_def)
qed

lemma parse_lines_append:
  "parse_lines f jg s (xs @ ys) = and_then (parse_lines f jg s xs) (\<lambda>s'. parse_lines f jg s' ys)"
  by (simp add: parse_lines_classify line_steps_append)

subsection \<open>The loop on the format before Linux 3.8\<close>

lemma processor_numbers_Nil [simp]: "processor_numbers f [] = {}"
  by (simp add: processor_numbers_def)

lemma processor_numbers_Cons_processor:
  "processor_numbers f (ProcessorLine (Some v) # ks) =
     (case f v 0 of None \<Rightarrow> {} | Some n \<Rightarrow> {size_t_of_int n}) \<union> processor_numbers f ks"
  by (auto simp: processor_numbers_def split: option.splits)

lemma processor_numbers_Cons_other:
  "(\<forall>v. k \<noteq> ProcessorLine (Some v)) \<Longrightarrow> processor_numbers f (k # ks) = processor_numbers f ks"
  by (auto simp: processor_numbers_def)

lemma push_bit_12_not_minus_1: "push_bit 12 x \<noteq> (- 1 :: 32 word)"
proof -
  have "\<not> bit (push_bit 12 x :: 32 word) 0" by (simp add: bit_simps)
  moreover have "bit (- 1 :: 32 word) 0" by simp
  ultimately show ?thesis by metis
qed

lemma pre38_step_plain:
  assumes "pre38_inv x y phase b s"
    and "kind = Blank \<or> kind = OtherLine \<or> kind = HardwareLine (Some v)"
  shows "\<exists>s'. line_step f False s kind = Continue s'
           \<and> pre38_inv x y phase (if kind = Blank then False else b) s'
           \<and> cpuIds s' = cpuIds s \<and> minProcessor s' = minProcessor s
           \<and> maxProcessor s' = maxProcessor s"
proof -
  consider (blank) "kind = Blank" | (other) "kind = OtherLine"
    | (hw) "kind = HardwareLine (Some v)" using assms(2) by blast
  then show ?thesis
  proof cases
    case blank
    have "line_step f False s kind
            = Continue (s \<lparr> processor := UNKNOWN_PROCESSOR, foundProcessorInSection := False \<rparr>)"
      by (simp add: blank line_step_def)
    then show ?thesis
      using assms(1)
      by (intro exI[of _ "s \<lparr> processor := UNKNOWN_PROCESSOR, foundProcessorInSection := False \<rparr>"])
         (simp add: blank pre38_inv_def)
  next
    case other
    have "line_step f False s kind = Continue s" by (simp add: other line_step_def)
    then show ?thesis using assms(1) by (intro exI[of _ s]) (simp add: other)
  next
    case hw
    show ?thesis
    proof (cases "foundCoreName s")
      case True
      then have "line_step f False s kind = Continue s" by (simp add: hw line_step_def)
      then show ?thesis using assms(1) by (intro exI[of _ s]) (simp add: hw)
    next
      case False
      then have "line_step f False s kind
                   = Continue (s \<lparr> hardwareName := v, foundCoreName := True \<rparr>)"
        by (simp add: hw line_step_def on_hardware_def)
      then show ?thesis
        using assms(1)
        by (intro exI[of _ "s \<lparr> hardwareName := v, foundCoreName := True \<rparr>"])
           (simp add: hw pre38_inv_def)
    qed
  qed
qed

lemma pre38_step_processor:
  assumes "pre38_inv x y phase b s"
    and "\<forall>n. f v 0 = Some n \<longrightarrow> size_t_of_int n < length (cpuIds s)"
  shows "\<exists>s'. line_step f False s (ProcessorLine (Some v)) = Continue s'
           \<and> pre38_inv x y phase True s'
           \<and> cpuIds s' = cpuIds s
           \<and> minProcessor s' = (case f v 0 of None \<Rightarrow> minProcessor s
                                | Some n \<Rightarrow> min (size_t_of_int n) (minProcessor s))
           \<and> maxProcessor s' = (case f v 0 of None \<Rightarrow> maxProcessor s
                                | Some n \<Rightarrow> max (size_t_of_int n) (maxProcessor s))"
proof -
  define s1 where "s1 = (case f v 0 of
                  None \<Rightarrow> s
                | Some processorId \<Rightarrow>
                    s \<lparr> minProcessor := (if size_t_of_int processorId < minProcessor s
                                          then size_t_of_int processorId else minProcessor s),
                        maxProcessor := (if size_t_of_int processorId > maxProcessor s
                                          then size_t_of_int processorId else maxProcessor s) \<rparr>)"
  have s1: "cpuIds s1 = cpuIds s" "outOfPlaceCpuId s1 = outOfPlaceCpuId s"
    "invalidFormat s1 = invalidFormat s"
    "minProcessor s1 = (case f v 0 of None \<Rightarrow> minProcessor s
                                | Some n \<Rightarrow> min (size_t_of_int n) (minProcessor s))"
    "maxProcessor s1 = (case f v 0 of None \<Rightarrow> maxProcessor s
                                | Some n \<Rightarrow> max (size_t_of_int n) (maxProcessor s))"
    by (simp_all add: s1_def min_def max_def split: option.splits)
  define s2 where "s2 =
     (if foundProcessorInSection s then s1 \<lparr> processor := UNKNOWN_PROCESSOR, invalidFormat := True \<rparr>
      else case f v 0 of None \<Rightarrow> s1
           | Some n \<Rightarrow> s1 \<lparr> processor := size_t_of_int n, foundProcessorInSection := True \<rparr>)"
  have step: "line_step f False s (ProcessorLine (Some v)) = Continue s2"
    using assms(2)
    by (cases "f v 0")
       (simp_all add: line_step_def on_processor_def Let_def s1_def s2_def)
  have s2: "cpuIds s2 = cpuIds s1" "outOfPlaceCpuId s2 = outOfPlaceCpuId s1"
    "invalidFormat s1 \<longrightarrow> invalidFormat s2"
    "minProcessor s2 = minProcessor s1" "maxProcessor s2 = maxProcessor s1"
    by (simp_all add: s2_def split: option.splits)
  have "pre38_inv x y phase True s2"
    using assms(1) s1(2,3) s2(2,3) by (simp add: pre38_inv_def)
  with step s1 s2 show ?thesis by (intro exI[of _ s2]) simp
qed

lemma pre38_step_implementer:
  assumes "pre38_inv x y phase False s" "phase = 0 \<or> phase = 3" "f vx 0 = Some x"
  shows "\<exists>s'. line_step f False s (ImplementerLine (Some vx)) = Continue s'
           \<and> pre38_inv x y (if phase = 0 then 1 else 2) False s'
           \<and> cpuIds s' = cpuIds s \<and> minProcessor s' = minProcessor s
           \<and> maxProcessor s' = maxProcessor s"
proof -
  from assms(1) have u: "processor s = UNKNOWN_PROCESSOR" by (simp add: pre38_inv_def)
  define g where "g = setImplementer (outOfPlaceCpuId s) x"
  have step: "line_step f False s (ImplementerLine (Some vx))
          = Continue (s \<lparr> outOfPlaceCpuId := g, invalidFormat := True \<rparr>)"
    using u assms(3) by (simp add: line_step_def on_implementer_def g_def)
  have g: "phase = 0 \<Longrightarrow> g = push_bit 12 x" "phase = 3 \<Longrightarrow> g = push_bit 12 x OR y"
    using assms(1) by (simp_all add: pre38_inv_def g_def setImplementer_def or.commute)
  from assms(2) show ?thesis
  proof
    assume "phase = 0"
    with step u g(1) show ?thesis
      by (intro exI[of _ "s \<lparr> outOfPlaceCpuId := g, invalidFormat := True \<rparr>"])
         (simp add: pre38_inv_def)
  next
    assume "phase = 3"
    with step u g(2) show ?thesis
      by (intro exI[of _ "s \<lparr> outOfPlaceCpuId := g, invalidFormat := True \<rparr>"])
         (simp add: pre38_inv_def)
  qed
qed

lemma pre38_step_part:
  assumes "pre38_inv x y phase False s" "phase = 1 \<or> phase = 0 \<and> y \<noteq> - 1" "f vy 0 = Some y"
  shows "\<exists>s'. line_step f False s (PartLine (Some vy)) = Continue s'
           \<and> pre38_inv x y (if phase = 1 then 2 else 3) False s'
           \<and> cpuIds s' = cpuIds s \<and> minProcessor s' = minProcessor s
           \<and> maxProcessor s' = maxProcessor s"
proof -
  from assms(1) have u: "processor s = UNKNOWN_PROCESSOR" by (simp add: pre38_inv_def)
  define g where "g = setPart (outOfPlaceCpuId s) y"
  have step: "line_step f False s (PartLine (Some vy))
          = Continue (s \<lparr> outOfPlaceCpuId := g, invalidFormat := True \<rparr>)"
    using u assms(3) by (simp add: line_step_def on_part_def g_def)
  have g: "phase = 1 \<Longrightarrow> g = push_bit 12 x OR y" "phase = 0 \<Longrightarrow> g = y"
    using assms(1) push_bit_12_not_minus_1[of x]
    by (simp_all add: pre38_inv_def g_def setPart_def)
  from assms(2) show ?thesis
  proof
    assume "phase = 1"
    with step u g(1) show ?thesis
      by (intro exI[of _ "s \<lparr> outOfPlaceCpuId := g, invalidFormat := True \<rparr>"])
         (simp add: pre38_inv_def)
  next
    assume "phase = 0 \<and> y \<noteq> - 1"
    with step u g(2) show ?thesis
      by (intro exI[of _ "s \<lparr> outOfPlaceCpuId := g, invalidFormat := True \<rparr>"])
         (simp add: pre38_inv_def)
  qed
qed

lemma scanned_plain:
  assumes "cpuIds s1 = cpuIds s" "minProcessor s1 = minProcessor s"
    "maxProcessor s1 = maxProcessor s" "\<forall>v. k \<noteq> ProcessorLine (Some v)"
    "scanned f g s1 ks s'"
  shows "scanned f g s (k # ks) s'"
  using assms by (simp add: scanned_def processor_numbers_Cons_other)

lemma scanned_processor:
  assumes "cpuIds s1 = cpuIds s"
    "minProcessor s1 = (case f v 0 of None \<Rightarrow> minProcessor s
                                | Some n \<Rightarrow> min (size_t_of_int n) (minProcessor s))"
    "maxProcessor s1 = (case f v 0 of None \<Rightarrow> maxProcessor s
                                | Some n \<Rightarrow> max (size_t_of_int n) (maxProcessor s))"
    "scanned f g s1 ks s'"
  shows "scanned f g s (ProcessorLine (Some v) # ks) s'"
proof (cases "f v 0")
  case None
  with assms show ?thesis
    by (simp add: scanned_def processor_numbers_Cons_processor)
next
  case (Some n)
  with assms have m: "minProcessor s1 = min (size_t_of_int n) (minProcessor s)"
    "maxProcessor s1 = max (size_t_of_int n) (maxProcessor s)" by simp_all
  have pn: "processor_numbers f (ProcessorLine (Some v) # ks)
              = insert (size_t_of_int n) (processor_numbers f ks)"
    by (simp add: processor_numbers_Cons_processor Some)
  from assms(4) have s': "cpuIds s' = cpuIds s1" "outOfPlaceCpuId s' = g" "invalidFormat s'"
     "minProcessor s' \<le> minProcessor s1"
     "\<forall>p\<in>processor_numbers f ks. minProcessor s' \<le> p"
     "minProcessor s' = minProcessor s1 \<or> minProcessor s' \<in> processor_numbers f ks"
     "maxProcessor s1 \<le> maxProcessor s'"
     "\<forall>p\<in>processor_numbers f ks. p \<le> maxProcessor s'"
     "maxProcessor s' = maxProcessor s1 \<or> maxProcessor s' \<in> processor_numbers f ks"
    by (simp_all add: scanned_def)
  have 1: "minProcessor s' \<le> minProcessor s" using s'(4) m(1) by simp
  have 2: "\<forall>p\<in>insert (size_t_of_int n) (processor_numbers f ks). minProcessor s' \<le> p"
    using s'(4,5) m(1) by simp
  have 3: "minProcessor s' = minProcessor s
           \<or> minProcessor s' \<in> insert (size_t_of_int n) (processor_numbers f ks)"
    using s'(6) m(1) by (auto simp: min_def split: if_splits)
  have 4: "maxProcessor s \<le> maxProcessor s'" using s'(7) m(2) by simp
  have 5: "\<forall>p\<in>insert (size_t_of_int n) (processor_numbers f ks). p \<le> maxProcessor s'"
    using s'(7,8) m(2) by simp
  have 6: "maxProcessor s' = maxProcessor s
           \<or> maxProcessor s' \<in> insert (size_t_of_int n) (processor_numbers f ks)"
    using s'(9) m(2) by (auto simp: max_def split: if_splits)
  show ?thesis
    unfolding scanned_def pn using assms(1) s'(1,2,3) 1 2 3 4 5 6 by simp
qed

lemma pre38_run:
  assumes "pre38_style vx vy pf phase b ks" "pre38_inv x y phase b s"
    and "f vx 0 = Some x" "f vy 0 = Some y"
    and "\<forall>p\<in>processor_numbers f ks. p < length (cpuIds s)"
    and "pf \<longrightarrow> y \<noteq> - 1"
  shows "\<exists>s'. line_steps f False s ks = Continue s' \<and> scanned f (push_bit 12 x OR y) s ks s'"
  using assms
proof (induction vx vy pf phase b ks arbitrary: s rule: pre38_style.induct)
  case (1 vx vy pf phase b)
  then show ?case by (simp add: scanned_def pre38_inv_def)
next
  case (2 vx vy pf phase b ks)
  from pre38_step_plain[OF "2.prems"(2), of Blank _ f] obtain s1 where
    s1: "line_step f False s Blank = Continue s1" "pre38_inv x y phase False s1"
      "cpuIds s1 = cpuIds s" "minProcessor s1 = minProcessor s" "maxProcessor s1 = maxProcessor s"
    by auto
  have "\<forall>p\<in>processor_numbers f ks. p < length (cpuIds s1)"
    using "2.prems"(5) s1(3) by (simp add: processor_numbers_Cons_other)
  from "2.IH"[OF _ s1(2) "2.prems"(3,4) this "2.prems"(6)] "2.prems"(1) obtain s' where
    s': "line_steps f False s1 ks = Continue s'" "scanned f (push_bit 12 x OR y) s1 ks s'"
    by auto
  from scanned_plain[OF s1(3,4,5) _ s'(2), of Blank] s1(1) s'(1) show ?case by simp
next
  case (3 vx vy pf phase b ks)
  from pre38_step_plain[OF "3.prems"(2), of OtherLine _ f] obtain s1 where
    s1: "line_step f False s OtherLine = Continue s1" "pre38_inv x y phase b s1"
      "cpuIds s1 = cpuIds s" "minProcessor s1 = minProcessor s" "maxProcessor s1 = maxProcessor s"
    by auto
  have "\<forall>p\<in>processor_numbers f ks. p < length (cpuIds s1)"
    using "3.prems"(5) s1(3) by (simp add: processor_numbers_Cons_other)
  from "3.IH"[OF _ s1(2) "3.prems"(3,4) this "3.prems"(6)] "3.prems"(1) obtain s' where
    s': "line_steps f False s1 ks = Continue s'" "scanned f (push_bit 12 x OR y) s1 ks s'"
    by auto
  from scanned_plain[OF s1(3,4,5) _ s'(2), of OtherLine] s1(1) s'(1) show ?case by simp
next
  case (4 vx vy pf phase b v ks)
  from "4.prems"(1) obtain t where v: "v = Some t" and rest: "pre38_style vx vy pf phase b ks"
    by auto
  from pre38_step_plain[OF "4.prems"(2), of "HardwareLine (Some t)" t f] obtain s1 where
    s1: "line_step f False s (HardwareLine (Some t)) = Continue s1" "pre38_inv x y phase b s1"
      "cpuIds s1 = cpuIds s" "minProcessor s1 = minProcessor s" "maxProcessor s1 = maxProcessor s"
    by auto
  have "\<forall>p\<in>processor_numbers f ks. p < length (cpuIds s1)"
    using "4.prems"(5) s1(3) by (simp add: processor_numbers_Cons_other)
  from "4.IH"[OF rest s1(2) "4.prems"(3,4) this "4.prems"(6)] obtain s' where
    s': "line_steps f False s1 ks = Continue s'" "scanned f (push_bit 12 x OR y) s1 ks s'"
    by auto
  from scanned_plain[OF s1(3,4,5) _ s'(2), of "HardwareLine (Some t)"] s1(1) s'(1) v
  show ?case by simp
next
  case (5 vx vy pf phase b v ks)
  from "5.prems"(1) obtain t where v: "v = Some t" and rest: "pre38_style vx vy pf phase True ks"
    by auto
  have range: "\<forall>n. f t 0 = Some n \<longrightarrow> size_t_of_int n < length (cpuIds s)"
    using "5.prems"(5) by (auto simp: v processor_numbers_Cons_processor)
  from pre38_step_processor[of x y phase b s f t, OF "5.prems"(2) range] obtain s1 where
    s1: "line_step f False s (ProcessorLine (Some t)) = Continue s1" "pre38_inv x y phase True s1"
      "cpuIds s1 = cpuIds s"
      "minProcessor s1 = (case f t 0 of None \<Rightarrow> minProcessor s
                                | Some n \<Rightarrow> min (size_t_of_int n) (minProcessor s))"
      "maxProcessor s1 = (case f t 0 of None \<Rightarrow> maxProcessor s
                                | Some n \<Rightarrow> max (size_t_of_int n) (maxProcessor s))"
    by auto
  have "\<forall>p\<in>processor_numbers f ks. p < length (cpuIds s1)"
    using "5.prems"(5) s1(3) by (simp add: v processor_numbers_Cons_processor)
  from "5.IH"[OF rest s1(2) "5.prems"(3,4) this "5.prems"(6)] obtain s' where
    s': "line_steps f False s1 ks = Continue s'" "scanned f (push_bit 12 x OR y) s1 ks s'"
    by auto
  from scanned_processor[OF s1(3,4,5) s'(2)] s1(1) s'(1) v show ?case by simp
next
  case (6 vx vy pf phase b v ks)
  from "6.prems"(1) have c: "phase = 0 \<or> phase = 3" "\<not> b" "v = Some vx"
    and rest: "pre38_style vx vy pf (if phase = 0 then 1 else 2) b ks"
    by auto
  from "6.prems"(2) c have inv: "pre38_inv x y phase False s" by simp
  from pre38_step_implementer[of x y phase s f vx, OF inv c(1) "6.prems"(3)] obtain s1 where
    s1: "line_step f False s (ImplementerLine (Some vx)) = Continue s1"
      "pre38_inv x y (if phase = 0 then 1 else 2) False s1"
      "cpuIds s1 = cpuIds s" "minProcessor s1 = minProcessor s" "maxProcessor s1 = maxProcessor s"
    by auto
  have "\<forall>p\<in>processor_numbers f ks. p < length (cpuIds s1)"
    using "6.prems"(5) s1(3) by (simp add: processor_numbers_Cons_other)
  from "6.IH"[OF rest _ "6.prems"(3,4) this "6.prems"(6)] s1(2) c(2) obtain s' where
    s': "line_steps f False s1 ks = Continue s'" "scanned f (push_bit 12 x OR y) s1 ks s'"
    by auto
  from scanned_plain[OF s1(3,4,5) _ s'(2), of "ImplementerLine (Some vx)"] s1(1) s'(1) c(3)
  show ?case by simp
next
  case (7 vx vy pf phase b v ks)
  from "7.prems"(1) have c: "phase = 1 \<or> phase = 0 \<and> pf" "\<not> b" "v = Some vy"
    and rest: "pre38_style vx vy pf (if phase = 1 then 2 else 3) b ks"
    by auto
  from c(1) "7.prems"(6) have c1: "phase = 1 \<or> phase = 0 \<and> y \<noteq> - 1" by blast
  from "7.prems"(2) c have inv: "pre38_inv x y phase False s" by simp
  from pre38_step_part[of x y phase s f vy, OF inv c1 "7.prems"(4)] obtain s1 where
    s1: "line_step f False s (PartLine (Some vy)) = Continue s1"
      "pre38_inv x y (if phase = 1 then 2 else 3) False s1"
      "cpuIds s1 = cpuIds s" "minProcessor s1 = minProcessor s" "maxProcessor s1 = maxProcessor s"
    by auto
  have "\<forall>p\<in>processor_numbers f ks. p < length (cpuIds s1)"
    using "7.prems"(5) s1(3) by (simp add: processor_numbers_Cons_other)
  from "7.IH"[OF rest _ "7.prems"(3,4) this "7.prems"(6)] s1(2) c(2) obtain s' where
    s': "line_steps f False s1 ks = Continue s'" "scanned f (push_bit 12 x OR y) s1 ks s'"
    by auto
  from scanned_plain[OF s1(3,4,5) _ s'(2), of "PartLine (Some vy)"] s1(1) s'(1) c(3)
  show ?case by simp
qed

subsection \<open>A section that binds its processor\<close>

lemma section_steps:
  assumes start: "\<not> foundProcessorInSection s"
    and k: "k < length (cpuIds s)" "k \<noteq> UNKNOWN_PROCESSOR" "cpuIds s ! k = - 1"
    and p: "kp = ProcessorLine (Some vk)" "f vk 0 = Some n" "size_t_of_int n = k"
    and li: "ki = ImplementerLine (Some vx)" "f vx 0 = Some x"
    and lp: "kl = PartLine (Some vy)" "f vy 0 = Some y"
    and order: "mid = ki # o2 @ [kl] \<or> mid = kl # o2 @ [ki]"
    and others: "\<forall>k\<in>set (o1 @ o2 @ o3). k = OtherLine"
    and v: "push_bit 12 x OR y \<noteq> - 1"
  shows "\<exists>s3. line_steps f jg s (kp # o1 @ mid @ o3) = Continue s3 \<and> processor s3 = k
           \<and> length (cpuIds s3) = length (cpuIds s) \<and> cpuIds s3 ! k = push_bit 12 x OR y"
proof -
  define s1 where "s1 = s \<lparr> minProcessor := (if k < minProcessor s then k else minProcessor s),
                        maxProcessor := (if k > maxProcessor s then k else maxProcessor s),
                        processor := k, foundProcessorInSection := True \<rparr>"
  define s3 where "s3 = s1 \<lparr> cpuIds := (cpuIds s)[k := push_bit 12 x OR y] \<rparr>"
  have o: "\<forall>k\<in>set o1. k = OtherLine" "\<forall>k\<in>set o2. k = OtherLine" "\<forall>k\<in>set o3. k = OtherLine"
    using others by auto
  have y: "y \<noteq> - 1" using v by auto
  have step1: "line_step f jg s kp = Continue s1"
    using start p k(1) by (simp add: line_step_def on_processor_def Let_def s1_def)
  have two: "line_steps f jg s1 mid = Continue s3"
    using order
  proof
    assume m: "mid = ki # o2 @ [kl]"
    define s2 where "s2 = s1 \<lparr> cpuIds := (cpuIds s)[k := setImplementer (- 1) x] \<rparr>"
    have step2: "line_step f jg s1 ki = Continue s2"
      using li k by (simp add: line_step_def on_implementer_def s1_def s2_def)
    have step3: "line_step f jg s2 kl = Continue s3"
      using lp k
      by (simp add: line_step_def on_part_def s1_def s2_def s3_def setPart_setImplementer)
    show ?thesis
      by (simp add: m line_steps_append step2 step3 others_steps[OF o(2)])
  next
    assume m: "mid = kl # o2 @ [ki]"
    define s2 where "s2 = s1 \<lparr> cpuIds := (cpuIds s)[k := y] \<rparr>"
    have step2: "line_step f jg s1 kl = Continue s2"
      using lp k by (simp add: line_step_def on_part_def s1_def s2_def setPart_def)
    have step3: "line_step f jg s2 ki = Continue s3"
      using li k y
      by (simp add: line_step_def on_implementer_def s1_def s2_def s3_def setImplementer_def
            or.commute)
    show ?thesis
      by (simp add: m line_steps_append step2 step3 others_steps[OF o(2)])
  qed
  have sec: "line_steps f jg s (kp # o1 @ mid @ o3) = Continue s3"
    by (simp add: line_steps_append step1 two others_steps[OF o(1)] others_steps[OF o(3)])
  moreover have "processor s3 = k" "length (cpuIds s3) = length (cpuIds s)"
    "cpuIds s3 ! k = push_bit 12 x OR y"
    using k(1) by (simp_all add: s3_def s1_def)
  ultimately show ?thesis by blast
qed

subsection \<open>The lines of the instances\<close>

lemma classify_examples:
  "classify (cpuinfo_line ''processor'' ''0'') = ProcessorLine (Some ''0'')"
  "classify (cpuinfo_line ''processor'' ''1'') = ProcessorLine (Some ''1'')"
  "classify (cpuinfo_line ''CPU implementer'' ''0x41'') = ImplementerLine (Some ''0x41'')"
  "classify (cpuinfo_line ''CPU part'' ''0xd03'') = PartLine (Some ''0xd03'')"
  "classify blank_line = Blank"
  "classify (cpuinfo_line ''BogoMIPS'' ''48.00'') = OtherLine"
  "classify (cpuinfo_line ''CPU architecture'' ''8'') = OtherLine"
  "classify (cpuinfo_line ''CPU revision'' ''4'') = OtherLine"
  "classify (cpuinfo_line ''processor'' ''2'') = ProcessorLine (Some ''2'')"
  "classify (cpuinfo_line ''processor'' ''5'') = ProcessorLine (Some ''5'')"
  "classify (cpuinfo_line ''Hardware'' ''Juno'') = HardwareLine (Some ''Juno'')"
  by code_simp+

lemma stringToInt_spec_examples:
  "stringToInt_spec ''0x41'' 0 = Some 0x41" "stringToInt_spec ''0xd03'' 0 = Some 0xd03"
  "stringToInt_spec ''0'' 0 = Some 0" "stringToInt_spec ''1'' 0 = Some 1"
  "stringToInt_spec ''2'' 0 = Some 2" "stringToInt_spec ''5'' 0 = Some 5"
  by code_simp+

lemma size_t_small:
  "size_t_of_int 0 = 0" "size_t_of_int 1 = 1" "size_t_of_int 2 = 2" "size_t_of_int 5 = 5"
  by (simp_all add: size_t_of_int_def)

lemma ids_values: "setImplementer (- 1) 0x41 = 0x41000" "setPart 0x41000 0xd03 = 0x41d03"
  by (simp_all add: setImplementer_def setPart_def)

lemma up2: "[0..<2::nat] = [0, 1]" "[0..<Suc (Suc 0)] = [0, Suc 0]" by (simp_all add: upt_rec)

lemma classify_more:
  "classify (cpuinfo_line ''CPU implementer'' ''0x42'') = ImplementerLine (Some ''0x42'')"
  "classify (cpuinfo_line ''CPU part'' ''0xd04'') = PartLine (Some ''0xd04'')"
  by code_simp+

lemma stringToInt_spec_more:
  "stringToInt_spec ''0x42'' 0 = Some 0x42" "stringToInt_spec ''0xd04'' 0 = Some 0xd04"
  by code_simp+

lemma text_line_examples:
  "text_line (cpuinfo_line ''processor'' ''0'')"
  "text_line (cpuinfo_line ''processor'' ''1'')"
  "text_line (cpuinfo_line ''processor'' ''2'')"
  "text_line (cpuinfo_line ''processor'' ''5'')"
  "text_line (cpuinfo_line ''CPU implementer'' ''0x41'')"
  "text_line (cpuinfo_line ''CPU part'' ''0xd03'')"
  "text_line (cpuinfo_line ''CPU implementer'' ''0x42'')"
  "text_line (cpuinfo_line ''CPU part'' ''0xd04'')"
  "text_line blank_line"
  "text_line (cpuinfo_line ''BogoMIPS'' ''48.00'')"
  "text_line (cpuinfo_line ''CPU architecture'' ''8'')"
  "text_line (cpuinfo_line ''CPU revision'' ''4'')"
  "text_line (cpuinfo_line ''Hardware'' ''Juno'')"
  by code_simp+

lemma fgets_lines_text: "\<forall>l\<in>set ls. text_line l \<Longrightarrow> fgets_lines (concat ls) = ls"
  using fgets_lines_concat[of ls "[]"] by simp

lemma three_lines:
  "fgets_lines (concat [cpuinfo_line ''processor'' ''0'', cpuinfo_line ''CPU implementer'' ''0x41'',
            cpuinfo_line ''CPU part'' ''0xd03''])
   = [cpuinfo_line ''processor'' ''0'', cpuinfo_line ''CPU implementer'' ''0x41'',
            cpuinfo_line ''CPU part'' ''0xd03'']"
  "fgets_lines (concat [cpuinfo_line ''processor'' ''2'', cpuinfo_line ''CPU implementer'' ''0x42'',
            cpuinfo_line ''CPU part'' ''0xd04''])
   = [cpuinfo_line ''processor'' ''2'', cpuinfo_line ''CPU implementer'' ''0x42'',
            cpuinfo_line ''CPU part'' ''0xd04'']"
  by (rule fgets_lines_text, simp add: text_line_examples)+

lemma four_lines:
  "fgets_lines (concat [cpuinfo_line ''processor'' ''0'', cpuinfo_line ''processor'' ''1'',
            cpuinfo_line ''CPU implementer'' ''0x41'', cpuinfo_line ''CPU part'' ''0xd03''])
   = [cpuinfo_line ''processor'' ''0'', cpuinfo_line ''processor'' ''1'',
            cpuinfo_line ''CPU implementer'' ''0x41'', cpuinfo_line ''CPU part'' ''0xd03'']"
  "fgets_lines (concat [cpuinfo_line ''processor'' ''0'', cpuinfo_line ''CPU implementer'' ''0x41'',
            cpuinfo_line ''CPU part'' ''0xd03'', cpuinfo_line ''processor'' ''1''])
   = [cpuinfo_line ''processor'' ''0'', cpuinfo_line ''CPU implementer'' ''0x41'',
            cpuinfo_line ''CPU part'' ''0xd03'', cpuinfo_line ''processor'' ''1'']"
  by (rule fgets_lines_text, simp add: text_line_examples)+

lemma ids_values_more:
  "setImplementer (- 1) 0x42 = 0x42000" "setPart 0x42000 0xd04 = 0x42d04"
  by (simp_all add: setImplementer_def setPart_def)

lemma list3: "length xs = 3 \<Longrightarrow> xs = [xs ! 0, xs ! 1, xs ! 2]"
  by (cases xs; cases "tl xs"; cases "tl (tl xs)") auto

lemma pre38_example_lines:
  "fgets_lines (concat
        [cpuinfo_line ''processor'' ''2'', blank_line, cpuinfo_line ''processor'' ''5'',
         blank_line, cpuinfo_line ''CPU implementer'' ''0x41'',
         cpuinfo_line ''CPU part'' ''0xd03'', blank_line, cpuinfo_line ''Hardware'' ''Juno''])
   = [cpuinfo_line ''processor'' ''2'', blank_line, cpuinfo_line ''processor'' ''5'',
         blank_line, cpuinfo_line ''CPU implementer'' ''0x41'',
         cpuinfo_line ''CPU part'' ''0xd03'', blank_line, cpuinfo_line ''Hardware'' ''Juno'']"
  by (rule fgets_lines_text) (simp add: text_line_examples)

lemma pre38_example_numbers:
  "processor_numbers stringToInt_spec
     (map classify
        [cpuinfo_line ''processor'' ''2'', blank_line, cpuinfo_line ''processor'' ''5'',
         blank_line, cpuinfo_line ''CPU implementer'' ''0x41'',
         cpuinfo_line ''CPU part'' ''0xd03'', blank_line, cpuinfo_line ''Hardware'' ''Juno''])
   = {5, 2}"
  by (simp add: classify_examples processor_numbers_Cons_processor processor_numbers_Cons_other
        stringToInt_spec_examples size_t_small)

lemma two_sections_lines:
  "fgets_lines ([] @ concat (cpuinfo_line ''processor'' ''0'' # [cpuinfo_line ''BogoMIPS'' ''48.00'']
            @ (cpuinfo_line ''CPU implementer'' ''0x41'' # [cpuinfo_line ''CPU architecture'' ''8'']
               @ [cpuinfo_line ''CPU part'' ''0xd03''])
            @ [cpuinfo_line ''CPU revision'' ''4''])
         @ concat [blank_line, cpuinfo_line ''processor'' ''1'',
               cpuinfo_line ''CPU implementer'' ''0x41'', cpuinfo_line ''CPU part'' ''0xd03''])
   = [cpuinfo_line ''processor'' ''0'', cpuinfo_line ''BogoMIPS'' ''48.00'',
      cpuinfo_line ''CPU implementer'' ''0x41'', cpuinfo_line ''CPU architecture'' ''8'',
      cpuinfo_line ''CPU part'' ''0xd03'', cpuinfo_line ''CPU revision'' ''4'',
      blank_line, cpuinfo_line ''processor'' ''1'',
      cpuinfo_line ''CPU implementer'' ''0x41'', cpuinfo_line ''CPU part'' ''0xd03'']"
proof -
  let ?ls = "[cpuinfo_line ''processor'' ''0'', cpuinfo_line ''BogoMIPS'' ''48.00'',
      cpuinfo_line ''CPU implementer'' ''0x41'', cpuinfo_line ''CPU architecture'' ''8'',
      cpuinfo_line ''CPU part'' ''0xd03'', cpuinfo_line ''CPU revision'' ''4'',
      blank_line, cpuinfo_line ''processor'' ''1'',
      cpuinfo_line ''CPU implementer'' ''0x41'', cpuinfo_line ''CPU part'' ''0xd03'']"
  have "fgets_lines (concat ?ls) = ?ls"
    by (rule fgets_lines_text) (simp add: text_line_examples)
  then show ?thesis by simp
qed

lemma parse_two_sections:
  "parseProcCpuInfo stringToInt_spec False [- 1, - 1, - 1, - 1]
     (Some ([] @ concat (cpuinfo_line ''processor'' ''0'' # [cpuinfo_line ''BogoMIPS'' ''48.00'']
            @ (cpuinfo_line ''CPU implementer'' ''0x41'' # [cpuinfo_line ''CPU architecture'' ''8'']
               @ [cpuinfo_line ''CPU part'' ''0xd03''])
            @ [cpuinfo_line ''CPU revision'' ''4''])
         @ concat [blank_line, cpuinfo_line ''processor'' ''1'',
               cpuinfo_line ''CPU implementer'' ''0x41'', cpuinfo_line ''CPU part'' ''0xd03'']))
   = Inr ([], [0x41d03, 0x41d03, - 1, - 1])"
  unfolding parseProcCpuInfo_def option.case two_sections_lines
  by (simp add: parse_finish_def parse_lines_classify classify_examples
        line_step_def on_processor_def on_implementer_def on_part_def Let_def
        stringToInt_spec_examples size_t_small parse_init_def ids_values fill_out_of_place_def
        UNKNOWN_PROCESSOR_def)

subsection \<open>Claims about the CPU identification\<close>




text \<open>
  Claim C7, as amended.  On a \<^verbatim>\<open>/proc/cpuinfo\<close> of the format before Linux 3.8 that is
  read in full (\<^verbatim>\<open>justGetHardwareName\<close> is false): \<^verbatim>\<open>fgets\<close> returns one
  \<^verbatim>\<open>CPU implementer\<close> line for \<open>x\<close> and one \<^verbatim>\<open>CPU part\<close> line for \<open>y\<close>, neither after a
  \<^verbatim>\<open>processor\<close> line in its section and the part line first only where \<open>y\<close> is not -1,
  \<^verbatim>\<open>processor\<close> and \<^verbatim>\<open>Hardware\<close> lines with a text after their colon, and processor
  numbers within the span, the least \<open>lo\<close> and the greatest \<open>hi\<close>.  \<^verbatim>\<open>parseProcCpuInfo\<close>
  returns, every entry from \<open>lo\<close> to \<open>hi\<close> inclusive that held -1 holds
  \<^verbatim>\<open>(x << 12) | y\<close>, and every other entry is unchanged.
\<close>

theorem pre38_fill:
  assumes style: "pre38_style vx vy (y \<noteq> - 1) 0 False (map classify (fgets_lines content))"
    and x: "stringToInt vx 0 = Some x" and y: "stringToInt vy 0 = Some y"
    and range: "\<forall>p\<in>processor_numbers stringToInt (map classify (fgets_lines content)).
                  p < length ids"
    and lo: "lo \<in> processor_numbers stringToInt (map classify (fgets_lines content))"
    and hi: "hi \<in> processor_numbers stringToInt (map classify (fgets_lines content))"
    and span: "\<forall>p\<in>processor_numbers stringToInt (map classify (fgets_lines content)).
                 lo \<le> p \<and> p \<le> hi"
  shows "\<exists>name ids'.
           parseProcCpuInfo stringToInt False ids (Some content) = Inr (name, ids')
           \<and> length ids' = length ids
           \<and> (\<forall>i<length ids.
                 ids' ! i = (if lo \<le> i \<and> i \<le> hi \<and> ids ! i = - 1 then push_bit 12 x OR y
                             else ids ! i))"
proof -
  let ?ks = "map classify (fgets_lines content)"
  let ?P = "processor_numbers stringToInt ?ks"
  let ?g = "push_bit 12 x OR y"
  have inv: "pre38_inv x y 0 False (parse_init ids)"
    by (simp add: pre38_inv_def parse_init_def)
  have r: "\<forall>p\<in>?P. p < length (cpuIds (parse_init ids))"
    using range by (simp add: parse_init_def)
  have pf: "y \<noteq> - 1 \<longrightarrow> y \<noteq> - 1" by simp
  from pre38_run[of vx vy "y \<noteq> - 1" 0 False ?ks x y "parse_init ids" stringToInt,
      OF style inv x y r pf]
  obtain s' where run: "line_steps stringToInt False (parse_init ids) ?ks = Continue s'"
    and sc: "scanned stringToInt ?g (parse_init ids) ?ks s'" by blast
  from sc have s': "cpuIds s' = ids" "outOfPlaceCpuId s' = ?g" "invalidFormat s'"
    "\<forall>p\<in>?P. minProcessor s' \<le> p" "minProcessor s' = length ids \<or> minProcessor s' \<in> ?P"
    "\<forall>p\<in>?P. p \<le> maxProcessor s'" "maxProcessor s' = 0 \<or> maxProcessor s' \<in> ?P"
    by (simp_all add: scanned_def parse_init_def)
  have mn: "minProcessor s' = lo"
  proof -
    from s'(4) lo have "minProcessor s' \<le> lo" by blast
    moreover from range lo have "lo < length ids" by blast
    ultimately have "minProcessor s' \<noteq> length ids" by simp
    with s'(5) have "minProcessor s' \<in> ?P" by simp
    with span have "lo \<le> minProcessor s'" by blast
    with \<open>minProcessor s' \<le> lo\<close> show ?thesis by simp
  qed
  have mx: "maxProcessor s' = hi"
  proof -
    from s'(6) hi have ge: "hi \<le> maxProcessor s'" by blast
    from s'(7) have "maxProcessor s' \<le> hi"
    proof
      assume "maxProcessor s' = 0" then show ?thesis by simp
    next
      assume "maxProcessor s' \<in> ?P" with span show ?thesis by blast
    qed
    with ge show ?thesis by simp
  qed
  have res: "parseProcCpuInfo stringToInt False ids (Some content)
               = Inr (hardwareName s', fill_out_of_place s')"
    by (simp add: parseProcCpuInfo_def parse_lines_classify run parse_finish_def)
  have len: "length (fill_out_of_place s') = length ids"
    by (simp add: fill_out_of_place_length s'(1))
  have nth: "\<forall>i<length ids. fill_out_of_place s' ! i
               = (if lo \<le> i \<and> i \<le> hi \<and> ids ! i = - 1 then ?g else ids ! i)"
  proof (intro allI impI)
    fix i assume i: "i < length ids"
    then have "i < length (cpuIds s')" by (simp add: s'(1))
    from fill_out_of_place_nth[OF this] show "fill_out_of_place s' ! i
               = (if lo \<le> i \<and> i \<le> hi \<and> ids ! i = - 1 then ?g else ids ! i)"
      by (auto simp: s'(1,2,3) mn mx)
  qed
  from res len nth show ?thesis by blast
qed

theorem pre38_fill_witness:
  "\<exists>name ids'.
     parseProcCpuInfo stringToInt_spec False [- 1, - 1, - 1, 0x41d08, - 1, - 1, - 1, - 1]
       (Some (concat
          [cpuinfo_line ''processor'' ''2'', blank_line, cpuinfo_line ''processor'' ''5'',
           blank_line, cpuinfo_line ''CPU implementer'' ''0x41'',
           cpuinfo_line ''CPU part'' ''0xd03'', blank_line, cpuinfo_line ''Hardware'' ''Juno'']))
       = Inr (name, ids')
     \<and> length ids' = 8 \<and> ids' ! 1 = - 1 \<and> ids' ! 2 = 0x41d03 \<and> ids' ! 3 = 0x41d08
     \<and> ids' ! 5 = 0x41d03 \<and> ids' ! 6 = - 1"
proof -
  let ?bufs = "[cpuinfo_line ''processor'' ''2'', blank_line, cpuinfo_line ''processor'' ''5'',
              blank_line, cpuinfo_line ''CPU implementer'' ''0x41'',
              cpuinfo_line ''CPU part'' ''0xd03'', blank_line, cpuinfo_line ''Hardware'' ''Juno'']"
  let ?ids = "[- 1, - 1, - 1, 0x41d08, - 1, - 1, - 1, - 1] :: 32 word list"
  have style: "pre38_style ''0x41'' ''0xd03'' ((0xd03 :: 32 word) \<noteq> - 1) 0 False
                 (map classify (fgets_lines (concat ?bufs)))"
    unfolding pre38_example_lines by (simp add: classify_examples)
  have h: "\<forall>p\<in>processor_numbers stringToInt_spec (map classify (fgets_lines (concat ?bufs))).
             p < length ?ids"
    "2 \<in> processor_numbers stringToInt_spec (map classify (fgets_lines (concat ?bufs)))"
    "5 \<in> processor_numbers stringToInt_spec (map classify (fgets_lines (concat ?bufs)))"
    "\<forall>p\<in>processor_numbers stringToInt_spec (map classify (fgets_lines (concat ?bufs))).
       2 \<le> p \<and> p \<le> 5"
    unfolding pre38_example_lines pre38_example_numbers by simp_all
  from pre38_fill[OF style stringToInt_spec_examples(1,2) h] obtain name ids' where
    r: "parseProcCpuInfo stringToInt_spec False ?ids (Some (concat ?bufs)) = Inr (name, ids')"
      "length ids' = length ?ids"
      "\<forall>i<length ?ids. ids' ! i = (if 2 \<le> i \<and> i \<le> 5 \<and> ?ids ! i = - 1
                                      then push_bit 12 0x41 OR 0xd03 else ?ids ! i)"
    by blast
  have g: "push_bit 12 0x41 OR 0xd03 = (0x41d03 :: 32 word)" by simp
  from r(3) have "ids' ! 1 = - 1" "ids' ! 2 = 0x41d03" "ids' ! 3 = 0x41d08"
    "ids' ! 5 = 0x41d03" "ids' ! 6 = - 1"
    unfolding g by (simp_all)
  with r(1,2) show ?thesis by simp
qed

text \<open>
  The claim as stated, for either value of \<^verbatim>\<open>justGetHardwareName\<close>, fails where only
  the hardware name is wanted, as \<^verbatim>\<open>readCpuInfo\<close> asks when it knows every MIDR value: the
  function returns at the \<^verbatim>\<open>Hardware\<close> line, before the fill, and the span is as it was.
\<close>

theorem pre38_hardware_name_only:
  "parseProcCpuInfo stringToInt_spec True [- 1, - 1, - 1, 0x41d08, - 1, - 1, - 1, - 1]
       (Some (concat
          [cpuinfo_line ''processor'' ''2'', blank_line, cpuinfo_line ''processor'' ''5'',
           blank_line, cpuinfo_line ''CPU implementer'' ''0x41'',
           cpuinfo_line ''CPU part'' ''0xd03'', blank_line, cpuinfo_line ''Hardware'' ''Juno'']))
   = Inr (''Juno'', [- 1, - 1, - 1, 0x41d08, - 1, - 1, - 1, - 1])"
  unfolding parseProcCpuInfo_def option.case pre38_example_lines
  by (simp add: parse_finish_def parse_lines_classify classify_examples
        line_step_def on_processor_def on_implementer_def on_part_def on_hardware_def Let_def
        stringToInt_spec_examples size_t_small parse_init_def)




text \<open>
  Claim C9.  For every \<open>N\<close> from 1 that the result type \<^verbatim>\<open>unsigned int\<close> holds,
  \<^verbatim>\<open>getMaxCoreNum\<close> on a directory whose entries that start with \<^verbatim>\<open>cpu\<close> are exactly
  \<^verbatim>\<open>cpu0\<close> to \<^verbatim>\<open>cpu{N-1}\<close>, in any order and among any other entries, returns \<open>N\<close>,
  where \<^verbatim>\<open>stringToLong\<close> converts the decimal digits of each \<open>k < N\<close> to \<open>k\<close>; and on the
  entries \<^verbatim>\<open>cpu0\<close>, \<^verbatim>\<open>cpu1\<close>, \<^verbatim>\<open>cpu2\<close>, \<^verbatim>\<open>cpu10\<close> and \<^verbatim>\<open>cpufreq\<close>, in any order, it
  returns 11, where \<^verbatim>\<open>stringToLong\<close> converts the four numbers and rejects \<^verbatim>\<open>freq\<close>.
\<close>

theorem getMaxCoreNum_counts:
  "(1 \<le> N \<and> N < 2 ^ 32 \<and> (\<forall>k<N. stringToLong (dec k) 10 = Some (of_nat k))
      \<and> {e \<in> set entries. strncmp_eq e ''cpu''} = cpu_entry ` {..<N}
     \<longrightarrow> (\<exists>r. getMaxCoreNum stringToLong (Some entries) = Inr r \<and> unat r = N))
   \<and> (set entries' = {''cpu0'', ''cpu1'', ''cpu2'', ''cpu10'', ''cpufreq''}
      \<and> stringToLong ''0'' 10 = Some 0 \<and> stringToLong ''1'' 10 = Some 1
      \<and> stringToLong ''2'' 10 = Some 2 \<and> stringToLong ''10'' 10 = Some 10
      \<and> stringToLong ''freq'' 10 = None
     \<longrightarrow> getMaxCoreNum stringToLong (Some entries') = Inr 11)"
proof (intro conjI impI)
  assume h: "1 \<le> N \<and> N < 2 ^ 32 \<and> (\<forall>k<N. stringToLong (dec k) 10 = Some (of_nat k))
      \<and> {e \<in> set entries. strncmp_eq e ''cpu''} = cpu_entry ` {..<N}"
  then have N: "1 \<le> N" "N < 2 ^ 32"
    and parse: "\<forall>k<N. stringToLong (dec k) 10 = Some (of_nat k)"
    and entries: "{e \<in> set entries. strncmp_eq e ''cpu''} = cpu_entry ` {..<N}"
    by blast+
  have "(2 :: nat) ^ 32 \<le> 2 ^ 63" by simp
  with N(2) have N63: "N < 2 ^ 63" by linarith
  have "scanCpuEntries stringToLong (- 1) entries = Inr (int N)"
    using N(1) N63 parse entries by (rule scan_cpu_entries_count[of N stringToLong entries])
  then have "getMaxCoreNum stringToLong (Some entries) = Inr (word_of_int (int N))"
    using N(1) by (intro getMaxCoreNum_of_scan) simp_all
  moreover have "unat (word_of_int (int N) :: 32 word) = N"
    using N(2) by (simp add: unat_of_nat)
  ultimately show "\<exists>r. getMaxCoreNum stringToLong (Some entries) = Inr r \<and> unat r = N" by blast
next
  assume h: "set entries' = {''cpu0'', ''cpu1'', ''cpu2'', ''cpu10'', ''cpufreq''}
      \<and> stringToLong ''0'' 10 = Some 0 \<and> stringToLong ''1'' 10 = Some 1
      \<and> stringToLong ''2'' 10 = Some 2 \<and> stringToLong ''10'' 10 = Some 10
      \<and> stringToLong ''freq'' 10 = None"
  then have hs: "set entries' = {''cpu0'', ''cpu1'', ''cpu2'', ''cpu10'', ''cpufreq''}"
    and p: "stringToLong ''0'' 10 = Some 0" "stringToLong ''1'' 10 = Some 1"
      "stringToLong ''2'' 10 = Some 2" "stringToLong ''10'' 10 = Some 10"
      "stringToLong ''freq'' 10 = None"
    by blast+
  have c: "candidate stringToLong ''cpu0'' = Some 0" "candidate stringToLong ''cpu1'' = Some 1"
    "candidate stringToLong ''cpu2'' = Some 2" "candidate stringToLong ''cpu10'' = Some 10"
    "candidate stringToLong ''cpufreq'' = None"
    by (simp_all add: candidate_def strncmp_eq_def p)
  have no_max: "\<forall>e\<in>set entries'. candidate stringToLong e \<noteq> Some LONG_MAX"
    unfolding hs by (simp add: c LONG_MAX_def)
  from scanCpuEntries_result[OF no_max, of "- 1"] obtain r where
    r: "scanCpuEntries stringToLong (- 1) entries' = Inr r"
      "\<forall>e\<in>set entries'. \<forall>c. candidate stringToLong e = Some c \<longrightarrow> c + 1 \<le> r"
      "r = - 1 \<or> (\<exists>e\<in>set entries'. candidate stringToLong e = Some (r - 1))"
    by blast
  have "''cpu10'' \<in> set entries'" unfolding hs by simp
  with r(2) c(4) have lower: "11 \<le> r" by fastforce
  with r(3) obtain e where e: "e \<in> set entries'" "candidate stringToLong e = Some (r - 1)"
    by auto
  from e(1) have "e = ''cpu0'' \<or> e = ''cpu1'' \<or> e = ''cpu2'' \<or> e = ''cpu10'' \<or> e = ''cpufreq''"
    unfolding hs by blast
  with e(2) c have "r \<le> 11" by auto
  with lower have "r = 11" by simp
  with r(1) show "getMaxCoreNum stringToLong (Some entries') = Inr 11"
    by (simp add: getMaxCoreNum_def)
qed

theorem getMaxCoreNum_counts_witness:
  "getMaxCoreNum stringToLong_spec (Some [''cpu2'', ''.'', ''cpu0'', ''..'', ''cpu1'']) = Inr 3
   \<and> getMaxCoreNum stringToLong_spec
        (Some [''cpu0'', ''cpu1'', ''cpu2'', ''cpu10'', ''cpufreq'']) = Inr 11"
proof -
  let ?es = "[''cpu2'', ''.'', ''cpu0'', ''..'', ''cpu1'']"
  let ?es' = "[''cpu0'', ''cpu1'', ''cpu2'', ''cpu10'', ''cpufreq'']"
  have three: "{..<3::nat} = {0, Suc 0, 2}" by auto
  have "filter (\<lambda>e. strncmp_eq e ''cpu'') ?es = [''cpu2'', ''cpu0'', ''cpu1'']"
    by code_simp
  then have "{e \<in> set ?es. strncmp_eq e ''cpu''} = set [''cpu2'', ''cpu0'', ''cpu1'']"
    by (simp only: set_filter[symmetric])
  also have "\<dots> = {''cpu0'', ''cpu1'', ''cpu2''}"
    by (simp only: list.set insert_commute)
  also have "\<dots> = cpu_entry ` {..<3}"
    by (simp only: three image_insert image_empty cpu_entry_small)
  finally have f: "{e \<in> set ?es. strncmp_eq e ''cpu''} = cpu_entry ` {..<3}" .
  have p: "\<forall>k<3. stringToLong_spec (dec k) 10 = Some (of_nat k)"
  proof (intro allI impI)
    fix k :: nat assume "k < 3"
    then have "k < 2 ^ 63" by simp
    then show "stringToLong_spec (dec k) 10 = Some (of_nat k)" by (rule stringToLong_spec_dec)
  qed
  have n: "1 \<le> (3::nat)" "(3::nat) < 2 ^ 32" by simp_all
  have s: "set ?es' = {''cpu0'', ''cpu1'', ''cpu2'', ''cpu10'', ''cpufreq''}"
    by (simp only: list.set)
  note th = getMaxCoreNum_counts[of 3 stringToLong_spec ?es ?es']
  from th n p f obtain r where r: "getMaxCoreNum stringToLong_spec (Some ?es) = Inr r" "unat r = 3"
    by blast
  have "r = of_nat (unat r)" by simp
  with r(2) have "r = 3" by simp
  moreover from th s stringToLong_spec_examples
  have "getMaxCoreNum stringToLong_spec (Some ?es') = Inr 11" by blast
  ultimately show ?thesis using r(1) by (simp only:) 
qed
end
